theory Spec2Isabelle
  imports Main "HOL-Library.AList" "HOL-Library.Sublist"
begin

section \<open>Values exchanged with the two content APIs\<close>

text \<open>
  The script handles whatever \<^verbatim>\<open>res.json()\<close> returns: \<^verbatim>\<open>None\<close>, booleans, numbers,
  strings, lists and dicts. A dict is an association list in insertion order; numbers are
  the integers (a non-integer JSON number is outside this model).
\<close>

datatype json =
    JNull
  | JBool bool
  | JInt int
  | JStr string
  | JList "json list"
  | JObj "(string \<times> json) list"

type_synonym dict = "(string \<times> json) list"

text \<open>Python truth value of a value (\<^verbatim>\<open>if data:\<close>, \<^verbatim>\<open>not match_value\<close>).\<close>

fun truthy :: "json \<Rightarrow> bool" where
  "truthy JNull = False"
| "truthy (JBool b) = b"
| "truthy (JInt i) = (i \<noteq> 0)"
| "truthy (JStr s) = (s \<noteq> [])"
| "truthy (JList xs) = (xs \<noteq> [])"
| "truthy (JObj kvs) = (kvs \<noteq> [])"

text \<open>
  Exceptions. \<open>req_exn\<close> are the ones the HTTP client raises (a transport failure, or
  \<^verbatim>\<open>raise_for_status\<close>); each carries the text that \<^verbatim>\<open>str(e)\<close> gives.
\<close>

datatype req_exn = RequestException string | HTTPError string

datatype exn =
    KeyError json
  | IndexError
  | AttributeError
  | TypeError
  | JSONDecodeError
  | Requests req_exn

fun str_exn :: "req_exn \<Rightarrow> string" where
  "str_exn (RequestException m) = m"
| "str_exn (HTTPError m) = m"

subsection \<open>Dict and sequence operations used by the script\<close>

text \<open>\<^verbatim>\<open>d.get(k)\<close> and \<^verbatim>\<open>d[k] = v\<close> on a dict.\<close>

definition dict_get :: "dict \<Rightarrow> string \<Rightarrow> json" where
  "dict_get d k = (case map_of d k of None \<Rightarrow> JNull | Some v \<Rightarrow> v)"

definition dict_set :: "dict \<Rightarrow> string \<Rightarrow> json \<Rightarrow> dict" where
  "dict_set d k v = AList.update k v d"

text \<open>\<^verbatim>\<open>x.get(k, default)\<close> on any value: only a dict has \<^verbatim>\<open>get\<close>.\<close>

fun py_get :: "json \<Rightarrow> string \<Rightarrow> json \<Rightarrow> exn + json" where
  "py_get (JObj kvs) k d = Inr (case map_of kvs k of None \<Rightarrow> d | Some v \<Rightarrow> v)"
| "py_get _ k d = Inl AttributeError"

text \<open>\<^verbatim>\<open>x[k]\<close> with a string key.\<close>

fun py_item :: "json \<Rightarrow> string \<Rightarrow> exn + json" where
  "py_item (JObj kvs) k = (case map_of kvs k of None \<Rightarrow> Inl (KeyError (JStr k)) | Some v \<Rightarrow> Inr v)"
| "py_item _ k = Inl TypeError"

text \<open>\<^verbatim>\<open>k in x\<close> with a string \<open>k\<close>: key of a dict, element of a list, substring of a string.\<close>

fun py_contains :: "string \<Rightarrow> json \<Rightarrow> exn + bool" where
  "py_contains k (JObj kvs) = Inr (k \<in> fst ` set kvs)"
| "py_contains k (JList xs) = Inr (JStr k \<in> set xs)"
| "py_contains k (JStr s) = Inr (sublist k s)"
| "py_contains k _ = Inl TypeError"

text \<open>\<^verbatim>\<open>x[0]\<close>.\<close>

fun py_index0 :: "json \<Rightarrow> exn + json" where
  "py_index0 (JList (x # xs)) = Inr x"
| "py_index0 (JList []) = Inl IndexError"
| "py_index0 (JStr (c # cs)) = Inr (JStr [c])"
| "py_index0 (JStr []) = Inl IndexError"
| "py_index0 (JObj kvs) = Inl (KeyError (JInt 0))"
| "py_index0 _ = Inl TypeError"

text \<open>The elements \<^verbatim>\<open>for entry in x\<close> visits.\<close>

fun py_iter :: "json \<Rightarrow> exn + json list" where
  "py_iter (JList xs) = Inr xs"
| "py_iter (JStr s) = Inr (map (\<lambda>c. JStr [c]) s)"
| "py_iter (JObj kvs) = Inr (map (\<lambda>kv. JStr (fst kv)) kvs)"
| "py_iter _ = Inl TypeError"

subsection \<open>Formatting values into URLs\<close>

definition digit_char :: "nat \<Rightarrow> char" where
  "digit_char d = char_of (48 + d)"

function show_nat :: "nat \<Rightarrow> string" where
  "show_nat n = (if n < 10 then [digit_char n] else show_nat (n div 10) @ [digit_char (n mod 10)])"
  by pat_completeness auto
termination
  by (relation "measure id") auto

definition show_int :: "int \<Rightarrow> string" where
  "show_int i = (if i < 0 then CHR ''-'' # show_nat (nat (- i)) else show_nat (nat i))"

text \<open>
  \<^verbatim>\<open>str(x)\<close>, as an f-string applies it. The text Python prints for a list or a dict is not
  part of the script; it is the parameter \<open>rp\<close>.
\<close>

fun py_str :: "(json \<Rightarrow> string) \<Rightarrow> json \<Rightarrow> string" where
  "py_str rp JNull = ''None''"
| "py_str rp (JBool b) = (if b then ''True'' else ''False'')"
| "py_str rp (JInt i) = show_int i"
| "py_str rp (JStr s) = s"
| "py_str rp (JList xs) = rp (JList xs)"
| "py_str rp (JObj kvs) = rp (JObj kvs)"

section \<open>The HTTP client and the two servers\<close>

record env =
  SOURCE_API :: string
  SOURCE_TOKEN :: string
  DEST_API :: string
  DEST_TOKEN :: string

datatype http_method = GET | PUT | POST

record request =
  meth :: http_method
  url :: string
  bearer :: string
  payload :: "json option"

text \<open>
  A response has a status code, a reason phrase, the URL it reports and a body; the body
  is \<open>None\<close> when it is not JSON (\<^verbatim>\<open>res.json()\<close> raises then).
\<close>

record response =
  status_code :: nat
  reason :: string
  resp_url :: string
  body :: "json option"

datatype reply = Raises string | Replies response

text \<open>
  The servers and the network are a function from the requests sent so far, the current
  one last, to what the client gets back: a destination may answer a lookup differently
  after a create. The state of a run is the list of requests it has sent. \<open>clock\<close> gives
  the time stamp of the \<open>n\<close>-th report row and \<open>container_repr\<close> the text of a list or dict.
\<close>

record world =
  respond :: "request list \<Rightarrow> reply"
  clock :: "nat \<Rightarrow> string"
  container_repr :: "json \<Rightarrow> string"

definition send :: "world \<Rightarrow> request \<Rightarrow> request list \<Rightarrow> (req_exn + response) \<times> request list" where
  "send w q h =
     (case respond w (h @ [q]) of
        Raises m \<Rightarrow> (Inl (RequestException m), h @ [q])
      | Replies res \<Rightarrow> (Inr res, h @ [q]))"

text \<open>\<^verbatim>\<open>res.raise_for_status()\<close> of the HTTP client: it raises for 400 to 599 only.\<close>

definition http_error_msg :: "response \<Rightarrow> string" where
  "http_error_msg res =
     show_nat (status_code res)
       @ (if status_code res < 500 then '' Client Error: '' else '' Server Error: '')
       @ reason res @ '' for url: '' @ resp_url res"

definition raise_for_status :: "response \<Rightarrow> req_exn + unit" where
  "raise_for_status res =
     (if 400 \<le> status_code res \<and> status_code res < 600
      then Inl (HTTPError (http_error_msg res)) else Inr ())"

definition res_json :: "response \<Rightarrow> exn + json" where
  "res_json res = (case body res of None \<Rightarrow> Inl JSONDecodeError | Some j \<Rightarrow> Inr j)"

text \<open>
  \<^verbatim>\<open>res.raise_for_status(); data = res.json().get("data", [])\<close>, the same two lines in
  \<^verbatim>\<open>fetch_entries\<close> and \<^verbatim>\<open>find_existing_entry\<close>.
\<close>

definition response_data :: "response \<Rightarrow> exn + json" where
  "response_data res =
     (case raise_for_status res of
        Inl e \<Rightarrow> Inl (Requests e)
      | Inr _ \<Rightarrow> (case res_json res of Inl e \<Rightarrow> Inl e | Inr j \<Rightarrow> py_get j ''data'' (JList [])))"

section \<open>fetch_entries\<close>

definition source_url :: "env \<Rightarrow> string \<Rightarrow> nat \<Rightarrow> string" where
  "source_url ev collection page =
     SOURCE_API ev @ ''/api/'' @ collection
       @ ''?pagination[pageSize]=100&pagination[page]='' @ show_nat page
       @ ''&filters[publishedAt][$notNull]=true&populate=*''"

definition source_request :: "env \<Rightarrow> string \<Rightarrow> nat \<Rightarrow> request" where
  "source_request ev collection page =
     \<lparr>meth = GET, url = source_url ev collection page, bearer = SOURCE_TOKEN ev, payload = None\<rparr>"

text \<open>
  The \<^verbatim>\<open>continue\<close> of a skipped record, after its log line: the line formats
  \<^verbatim>\<open>entry.get('id')\<close>.
\<close>

definition skip_record :: "json \<Rightarrow> exn + dict option" where
  "skip_record entry = (case py_get entry ''id'' JNull of Inl e \<Rightarrow> Inl e | Inr _ \<Rightarrow> Inr None)"

text \<open>
  The body of \<^verbatim>\<open>for entry in data\<close>: \<open>Inr None\<close> is a skipped record, \<open>Inr (Some a)\<close> the
  entry appended to \<^verbatim>\<open>entries\<close>.
\<close>

definition fetch_record :: "string \<Rightarrow> json \<Rightarrow> exn + dict option" where
  "fetch_record match_field entry =
     (case py_contains ''attributes'' entry of
        Inl e \<Rightarrow> Inl e
      | Inr has \<Rightarrow>
          (case (if has then py_get entry ''attributes'' JNull else Inr entry) of
             Inl e \<Rightarrow> Inl e
           | Inr attributes \<Rightarrow>
               (case attributes of
                  JObj kvs \<Rightarrow>
                    if kvs = [] then skip_record entry
                    else
                      (case py_item entry ''id'' of
                         Inl e \<Rightarrow> Inl e
                       | Inr i \<Rightarrow>
                           let attrs = dict_set kvs ''id'' i;
                               match_value = dict_get attrs match_field;
                               attrs' = dict_set attrs ''match_field'' match_value
                           in if \<not> truthy match_value then skip_record entry
                              else Inr (Some attrs'))
                | _ \<Rightarrow> skip_record entry)))"

fun fetch_records :: "string \<Rightarrow> json list \<Rightarrow> dict list \<Rightarrow> exn + dict list" where
  "fetch_records match_field [] entries = Inr entries"
| "fetch_records match_field (entry # records) entries =
     (case fetch_record match_field entry of
        Inl e \<Rightarrow> Inl e
      | Inr None \<Rightarrow> fetch_records match_field records entries
      | Inr (Some a) \<Rightarrow> fetch_records match_field records (entries @ [a]))"

datatype 'a loop = Break 'a | Continue 'a

text \<open>One pass of \<^verbatim>\<open>while True\<close> once the page's \<^verbatim>\<open>data\<close> is known.\<close>

definition page_step :: "string \<Rightarrow> json \<Rightarrow> dict list \<Rightarrow> exn + dict list loop" where
  "page_step match_field data entries =
     (case (if truthy data then py_index0 data else Inr JNull) of
        Inl e \<Rightarrow> Inl e
      | Inr _ \<Rightarrow>
          if \<not> truthy data then Inr (Break entries)
          else
            (case py_iter data of
               Inl e \<Rightarrow> Inl e
             | Inr records \<Rightarrow>
                 (case fetch_records match_field records entries of
                    Inl e \<Rightarrow> Inl e
                  | Inr entries' \<Rightarrow> Inr (Continue entries'))))"

definition fetch_page ::
  "env \<Rightarrow> world \<Rightarrow> string \<Rightarrow> string \<Rightarrow> nat \<Rightarrow> dict list \<Rightarrow> request list
     \<Rightarrow> (exn + dict list loop) \<times> request list" where
  "fetch_page ev w collection match_field page entries h =
     (case send w (source_request ev collection page) h of
        (Inl e, h') \<Rightarrow> (Inl (Requests e), h')
      | (Inr res, h') \<Rightarrow>
          (case response_data res of
             Inl e \<Rightarrow> (Inl e, h')
           | Inr data \<Rightarrow> (page_step match_field data entries, h')))"

text \<open>The loop itself; \<open>None\<close> is a loop that never ends.\<close>

partial_function (option) fetch_pages ::
  "env \<Rightarrow> world \<Rightarrow> string \<Rightarrow> string \<Rightarrow> nat \<Rightarrow> dict list \<Rightarrow> request list
     \<Rightarrow> ((exn + dict list) \<times> request list) option" where
  "fetch_pages ev w collection match_field page entries h =
     (case fetch_page ev w collection match_field page entries h of
        (Inl e, h') \<Rightarrow> Some (Inl e, h')
      | (Inr (Break entries'), h') \<Rightarrow> Some (Inr entries', h')
      | (Inr (Continue entries'), h') \<Rightarrow>
          fetch_pages ev w collection match_field (page + 1) entries' h')"

declare fetch_pages.simps [code]

text \<open>\<^verbatim>\<open>fetch_entries\<close> is the first request a run makes: \<^verbatim>\<open>entries = []\<close>, \<^verbatim>\<open>page = 1\<close>.\<close>

definition fetch_entries ::
  "env \<Rightarrow> world \<Rightarrow> string \<Rightarrow> string \<Rightarrow> ((exn + dict list) \<times> request list) option" where
  "fetch_entries ev w collection match_field = fetch_pages ev w collection match_field 1 [] []"

section \<open>sanitize_payload and find_existing_entry\<close>

definition sanitize_payload :: "dict \<Rightarrow> exn + dict" where
  "sanitize_payload entry =
     (case py_item (JObj entry) ''agendaFormatName'' of
        Inl e \<Rightarrow> Inl e
      | Inr name \<Rightarrow>
          (case py_item (JObj entry) ''agendaFormatOrder'' of
             Inl e \<Rightarrow> Inl e
           | Inr ord \<Rightarrow> Inr [(''agendaFormatName'', name), (''agendaFormatOrder'', ord)]))"

definition lookup_url :: "env \<Rightarrow> world \<Rightarrow> string \<Rightarrow> string \<Rightarrow> json \<Rightarrow> string" where
  "lookup_url ev w collection match_field match_value =
     DEST_API ev @ ''/api/'' @ collection @ ''?filters['' @ match_field @ ''][$eq]=''
       @ py_str (container_repr w) match_value"

definition lookup_request :: "env \<Rightarrow> world \<Rightarrow> string \<Rightarrow> string \<Rightarrow> json \<Rightarrow> request" where
  "lookup_request ev w collection match_field match_value =
     \<lparr>meth = GET, url = lookup_url ev w collection match_field match_value,
      bearer = DEST_TOKEN ev, payload = None\<rparr>"

text \<open>
  \<^verbatim>\<open>if data and isinstance(data[0], dict): return {"documentId": ...}\<close>, else \<^verbatim>\<open>None\<close>.
\<close>

definition existing_of_data :: "json \<Rightarrow> exn + dict option" where
  "existing_of_data data =
     (if truthy data then
        (case py_index0 data of
           Inl e \<Rightarrow> Inl e
         | Inr first \<Rightarrow>
             (case first of
                JObj kvs \<Rightarrow>
                  (case py_get first ''attributes'' (JObj []) of
                     Inl e \<Rightarrow> Inl e
                   | Inr attributes \<Rightarrow>
                       (case py_get attributes ''documentId'' JNull of
                          Inl e \<Rightarrow> Inl e
                        | Inr doc \<Rightarrow> Inr (Some [(''documentId'', doc)])))
              | _ \<Rightarrow> Inr None))
      else Inr None)"

definition find_existing_entry ::
  "env \<Rightarrow> world \<Rightarrow> string \<Rightarrow> string \<Rightarrow> json \<Rightarrow> request list
     \<Rightarrow> (exn + dict option) \<times> request list" where
  "find_existing_entry ev w collection match_field match_value h =
     (case send w (lookup_request ev w collection match_field match_value) h of
        (Inl e, h') \<Rightarrow> (Inl (Requests e), h')
      | (Inr res, h') \<Rightarrow>
          (case response_data res of
             Inl e \<Rightarrow> (Inl e, h')
           | Inr data \<Rightarrow> (existing_of_data data, h')))"

section \<open>migrate_collection\<close>

record report_row =
  row_entry :: json
  row_action :: string
  row_error :: string
  row_timestamp :: string
  row_dry_run :: bool

text \<open>\<^verbatim>\<open>if existing_entry:\<close> on the dict or \<^verbatim>\<open>None\<close> that the lookup returned.\<close>

fun has_existing :: "dict option \<Rightarrow> bool" where
  "has_existing None = False"
| "has_existing (Some d) = (d \<noteq> [])"

text \<open>\<^verbatim>\<open>existing_entry.get("documentId") if existing_entry else None\<close>.\<close>

definition doc_id_of :: "dict option \<Rightarrow> json" where
  "doc_id_of existing_entry =
     (if has_existing existing_entry
      then (case existing_entry of None \<Rightarrow> JNull | Some d \<Rightarrow> dict_get d ''documentId'')
      else JNull)"

definition update_request :: "env \<Rightarrow> world \<Rightarrow> string \<Rightarrow> json \<Rightarrow> dict \<Rightarrow> request" where
  "update_request ev w collection update_doc_id post_payload =
     \<lparr>meth = PUT,
      url = DEST_API ev @ ''/api/'' @ collection @ ''/'' @ py_str (container_repr w) update_doc_id,
      bearer = DEST_TOKEN ev, payload = Some (JObj post_payload)\<rparr>"

definition create_request :: "env \<Rightarrow> string \<Rightarrow> dict \<Rightarrow> request" where
  "create_request ev collection post_payload =
     \<lparr>meth = POST, url = DEST_API ev @ ''/api/'' @ collection,
      bearer = DEST_TOKEN ev, payload = Some (JObj post_payload)\<rparr>"

text \<open>
  \<^verbatim>\<open>res = requests.put(...)\<close> or \<^verbatim>\<open>requests.post(...)\<close> followed by
  \<^verbatim>\<open>res.raise_for_status()\<close>.
\<close>

definition call :: "world \<Rightarrow> request \<Rightarrow> request list \<Rightarrow> (req_exn + unit) \<times> request list" where
  "call w q h =
     (case send w q h of
        (Inl e, h') \<Rightarrow> (Inl e, h')
      | (Inr res, h') \<Rightarrow> (raise_for_status res, h'))"

text \<open>
  The body of the \<^verbatim>\<open>try\<close> up to the assignment of \<^verbatim>\<open>action\<close>: \<open>Inr\<close> is the action,
  \<open>Inl\<close> the exception that reaches \<^verbatim>\<open>except Exception as e\<close>.
\<close>

definition upsert ::
  "env \<Rightarrow> world \<Rightarrow> string \<Rightarrow> bool \<Rightarrow> dict option \<Rightarrow> json \<Rightarrow> dict \<Rightarrow> request list
     \<Rightarrow> (req_exn + string) \<times> request list" where
  "upsert ev w collection dry_run existing_entry update_doc_id post_payload h =
     (if has_existing existing_entry then
        (if \<not> dry_run then
           (case call w (update_request ev w collection update_doc_id post_payload) h of
              (Inl e, h') \<Rightarrow> (Inl e, h')
            | (Inr _, h') \<Rightarrow> (Inr ''updated'', h'))
         else (Inr ''updated'', h))
      else
        (if \<not> dry_run then
           (case call w (create_request ev collection post_payload) h of
              (Inl e, h') \<Rightarrow> (Inl e, h')
            | (Inr _, h') \<Rightarrow> (Inr ''created'', h'))
         else (Inr ''created'', h)))"

text \<open>
  The body of \<^verbatim>\<open>for entry in entries\<close>. \<open>Inl\<close> is an exception that leaves the loop:
  \<^verbatim>\<open>sanitize_payload\<close> and \<^verbatim>\<open>find_existing_entry\<close> are called before the \<^verbatim>\<open>try\<close>.
\<close>

definition migrate_entry ::
  "env \<Rightarrow> world \<Rightarrow> string \<Rightarrow> string \<Rightarrow> bool \<Rightarrow> dict \<Rightarrow> report_row list \<Rightarrow> request list
     \<Rightarrow> (exn + report_row list) \<times> request list" where
  "migrate_entry ev w collection match_field dry_run entry report_rows h =
     (let match_value = dict_get entry match_field in
      case sanitize_payload entry of
        Inl e \<Rightarrow> (Inl e, h)
      | Inr pl \<Rightarrow>
          let post_payload = [(''data'', JObj pl)] in
          (case find_existing_entry ev w collection match_field match_value h of
             (Inl e, h1) \<Rightarrow> (Inl e, h1)
           | (Inr existing_entry, h1) \<Rightarrow>
               let update_doc_id = doc_id_of existing_entry in
               (case upsert ev w collection dry_run existing_entry update_doc_id post_payload h1 of
                  (Inr action, h2) \<Rightarrow>
                    (Inr (report_rows @
                       [\<lparr>row_entry = dict_get entry match_field, row_action = action,
                         row_error = [], row_timestamp = clock w (length report_rows),
                         row_dry_run = dry_run\<rparr>]), h2)
                | (Inl e, h2) \<Rightarrow>
                    (Inr (report_rows @
                       [\<lparr>row_entry = dict_get entry match_field, row_action = ''failed'',
                         row_error = str_exn e, row_timestamp = clock w (length report_rows),
                         row_dry_run = dry_run\<rparr>]), h2))))"

fun migrate_entries ::
  "env \<Rightarrow> world \<Rightarrow> string \<Rightarrow> string \<Rightarrow> bool \<Rightarrow> dict list \<Rightarrow> report_row list \<Rightarrow> request list
     \<Rightarrow> (exn + report_row list) \<times> request list" where
  "migrate_entries ev w collection match_field dry_run [] report_rows h = (Inr report_rows, h)"
| "migrate_entries ev w collection match_field dry_run (entry # entries) report_rows h =
     (case migrate_entry ev w collection match_field dry_run entry report_rows h of
        (Inl e, h') \<Rightarrow> (Inl e, h')
      | (Inr report_rows', h') \<Rightarrow>
          migrate_entries ev w collection match_field dry_run entries report_rows' h')"

text \<open>
  How a run ends: with an exception nothing caught, or with the rows written to
  \<^verbatim>\<open>migration_report.csv\<close>. The file is opened only after the loop, so a run that raised
  has written no report.
\<close>

datatype outcome = Raised exn | Report_Written "report_row list"

definition migrate_collection ::
  "env \<Rightarrow> world \<Rightarrow> string \<Rightarrow> string \<Rightarrow> bool \<Rightarrow> (outcome \<times> request list) option" where
  "migrate_collection ev w collection match_field dry_run =
     (case fetch_entries ev w collection match_field of
        None \<Rightarrow> None
      | Some (Inl e, h) \<Rightarrow> Some (Raised e, h)
      | Some (Inr entries, h) \<Rightarrow>
          (case migrate_entries ev w collection match_field dry_run entries [] h of
             (Inl e, h') \<Rightarrow> Some (Raised e, h')
           | (Inr report_rows, h') \<Rightarrow> Some (Report_Written report_rows, h')))"

section \<open>Notions used to state the properties\<close>

text \<open>The loop of \<^verbatim>\<open>fetch_entries\<close> cut off after \<open>n\<close> passes; \<open>None\<close> when it needs more.\<close>

fun run_pages ::
  "nat \<Rightarrow> env \<Rightarrow> world \<Rightarrow> string \<Rightarrow> string \<Rightarrow> nat \<Rightarrow> dict list \<Rightarrow> request list
     \<Rightarrow> ((exn + dict list) \<times> request list) option" where
  "run_pages 0 ev w collection match_field page entries h = None"
| "run_pages (Suc n) ev w collection match_field page entries h =
     (case fetch_page ev w collection match_field page entries h of
        (Inl e, h') \<Rightarrow> Some (Inl e, h')
      | (Inr (Break entries'), h') \<Rightarrow> Some (Inr entries', h')
      | (Inr (Continue entries'), h') \<Rightarrow>
          run_pages n ev w collection match_field (page + 1) entries' h')"

text \<open>The requests for pages 1 to \<open>n\<close>, in order, and nothing else.\<close>

definition page_history :: "env \<Rightarrow> string \<Rightarrow> nat \<Rightarrow> request list" where
  "page_history ev collection n = map (source_request ev collection) [1..<Suc n]"

text \<open>
  What the source answers to the request for page \<open>k\<close> when pages 1 to \<open>k\<close> are all that
  has been requested, and the \<^verbatim>\<open>data\<close> of that answer.
\<close>

definition page_reply :: "env \<Rightarrow> world \<Rightarrow> string \<Rightarrow> nat \<Rightarrow> reply" where
  "page_reply ev w collection k = respond w (page_history ev collection k)"

definition page_data :: "env \<Rightarrow> world \<Rightarrow> string \<Rightarrow> nat \<Rightarrow> exn + json" where
  "page_data ev w collection k =
     (case page_reply ev w collection k of
        Raises m \<Rightarrow> Inl (Requests (RequestException m))
      | Replies res \<Rightarrow> response_data res)"

text \<open>Page \<open>k\<close> yields no entries: its \<^verbatim>\<open>data\<close> is empty (or another false value).\<close>

definition page_empty :: "env \<Rightarrow> world \<Rightarrow> string \<Rightarrow> nat \<Rightarrow> bool" where
  "page_empty ev w collection k =
     (case page_data ev w collection k of Inl _ \<Rightarrow> False | Inr data \<Rightarrow> \<not> truthy data)"

text \<open>Page \<open>k\<close> yields entries: its \<^verbatim>\<open>data\<close> is not empty and its records raise nothing.\<close>

definition page_nonempty :: "env \<Rightarrow> world \<Rightarrow> string \<Rightarrow> string \<Rightarrow> nat \<Rightarrow> bool" where
  "page_nonempty ev w collection match_field k =
     (case page_data ev w collection k of
        Inl _ \<Rightarrow> False
      | Inr data \<Rightarrow>
          truthy data \<and> (case page_step match_field data [] of Inl _ \<Rightarrow> False | Inr _ \<Rightarrow> True))"

text \<open>
  The attributes dict on which the loop body reads the match field (line 50), for a record
  that gets that far: a dict with an \<^verbatim>\<open>id\<close> whose attributes, nested or not, are a dict
  that is not empty.
\<close>

definition attributes_of :: "json \<Rightarrow> dict option" where
  "attributes_of entry =
     (case entry of
        JObj kvs \<Rightarrow>
          (case map_of kvs ''id'' of
             None \<Rightarrow> None
           | Some i \<Rightarrow>
               (case (if ''attributes'' \<in> fst ` set kvs then dict_get kvs ''attributes''
                      else entry) of
                  JObj a \<Rightarrow> if a = [] then None else Some (dict_set a ''id'' i)
                | _ \<Rightarrow> None))
      | _ \<Rightarrow> None)"

text \<open>
  The first result of a lookup carries no \<^verbatim>\<open>attributes.documentId\<close>: it has no
  \<^verbatim>\<open>attributes\<close>, or they are a dict without \<^verbatim>\<open>documentId\<close>.
\<close>

definition lacks_document_id :: "dict \<Rightarrow> bool" where
  "lacks_document_id kvs =
     (case map_of kvs ''attributes'' of
        None \<Rightarrow> True
      | Some (JObj a) \<Rightarrow> map_of a ''documentId'' = None
      | Some _ \<Rightarrow> False)"

text \<open>Whether a response status makes \<^verbatim>\<open>raise_for_status\<close> raise.\<close>

definition error_status :: "response \<Rightarrow> bool" where
  "error_status res = (400 \<le> status_code res \<and> status_code res < 600)"

subsection \<open>Concrete runs\<close>

text \<open>A world that answers the \<open>n\<close>-th request of a run with the \<open>n\<close>-th reply of a list.\<close>

definition scripted :: "reply list \<Rightarrow> world" where
  "scripted rs =
     \<lparr>respond = (\<lambda>h. if h \<noteq> [] \<and> length h \<le> length rs then rs ! (length h - 1)
                     else Raises ''connection refused''),
      clock = (\<lambda>n. ''T'' @ show_nat n),
      container_repr = (\<lambda>j. ''?'')\<rparr>"

definition demo_env :: env where
  "demo_env = \<lparr>SOURCE_API = ''http://src'', SOURCE_TOKEN = ''s'',
               DEST_API = ''http://dst'', DEST_TOKEN = ''d''\<rparr>"

definition answer :: "nat \<Rightarrow> string \<Rightarrow> json \<Rightarrow> reply" where
  "answer code phrase j =
     Replies \<lparr>status_code = code, reason = phrase, resp_url = ''u'', body = Some j\<rparr>"

definition data_page :: "json list \<Rightarrow> reply" where
  "data_page records = answer 200 ''OK'' (JObj [(''data'', JList records)])"

definition entry_A :: json where
  "entry_A = JObj [(''id'', JInt 1), (''agendaFormatName'', JStr ''Keynote''),
                   (''agendaFormatOrder'', JInt 1), (''match'', JStr ''A'')]"

definition entry_B :: json where
  "entry_B = JObj [(''id'', JInt 2), (''agendaFormatName'', JStr ''Panel''),
                   (''agendaFormatOrder'', JInt 2), (''match'', JStr ''B'')]"

definition entry_C :: json where
  "entry_C = JObj [(''id'', JInt 3), (''agendaFormatName'', JStr ''Talk''), (''match'', JStr ''C'')]"

definition entry_blank :: json where
  "entry_blank = JObj [(''id'', JInt 4), (''agendaFormatName'', JStr ''Break''),
                       (''agendaFormatOrder'', JInt 4), (''match'', JStr [])]"

text \<open>The entries as \<^verbatim>\<open>fetch_entries\<close> returns them.\<close>

definition fetched_A :: dict where
  "fetched_A = [(''id'', JInt 1), (''agendaFormatName'', JStr ''Keynote''),
                (''agendaFormatOrder'', JInt 1), (''match'', JStr ''A''),
                (''match_field'', JStr ''A'')]"

definition fetched_B :: dict where
  "fetched_B = [(''id'', JInt 2), (''agendaFormatName'', JStr ''Panel''),
                (''agendaFormatOrder'', JInt 2), (''match'', JStr ''B''),
                (''match_field'', JStr ''B'')]"

definition fetched_C :: dict where
  "fetched_C = [(''id'', JInt 3), (''agendaFormatName'', JStr ''Talk''), (''match'', JStr ''C''),
                (''match_field'', JStr ''C'')]"

definition payload_A :: dict where
  "payload_A = [(''agendaFormatName'', JStr ''Keynote''), (''agendaFormatOrder'', JInt 1)]"

text \<open>Two entries, no match in the destination, the first create answered with a 500.\<close>

definition world_create_fails :: world where
  "world_create_fails =
     scripted [data_page [entry_A, entry_B], data_page [],
               data_page [], answer 500 ''Internal Server Error'' (JObj []),
               data_page [], answer 201 ''Created'' (JObj [])]"

text \<open>Two entries, the first lookup answered with a 500.\<close>

definition world_lookup_fails :: world where
  "world_lookup_fails =
     scripted [data_page [entry_A, entry_B], data_page [],
               answer 500 ''Internal Server Error'' (JObj [])]"

text \<open>The second page of the source answered with a 503.\<close>

definition world_page_fails :: world where
  "world_page_fails =
     scripted [data_page [entry_A], answer 503 ''Service Unavailable'' (JObj [])]"

text \<open>The first page answered with a 300 that carries an empty \<^verbatim>\<open>data\<close> list.\<close>

definition world_redirect :: world where
  "world_redirect = scripted [answer 300 ''Multiple Choices'' (JObj [(''data'', JList [])])]"

text \<open>One entry; the destination has a match with document id \<^verbatim>\<open>doc123\<close>.\<close>

definition world_match :: world where
  "world_match =
     scripted [data_page [entry_A], data_page [],
               data_page [JObj [(''id'', JInt 9),
                                (''attributes'', JObj [(''documentId'', JStr ''doc123'')])]],
               answer 200 ''OK'' (JObj [])]"

text \<open>One entry; the destination has no match.\<close>

definition world_no_match :: world where
  "world_no_match =
     scripted [data_page [entry_A], data_page [], data_page [], answer 201 ''Created'' (JObj [])]"

text \<open>One entry; the destination's match has its document id beside \<^verbatim>\<open>id\<close>, not nested.\<close>

definition flat_match :: dict where
  "flat_match = [(''id'', JInt 9), (''documentId'', JStr ''doc123'')]"

definition world_flat_match :: world where
  "world_flat_match =
     scripted [data_page [entry_A], data_page [], data_page [JObj flat_match],
               answer 404 ''Not Found'' (JObj [])]"

text \<open>One entry without \<^verbatim>\<open>agendaFormatOrder\<close>.\<close>

definition world_missing_field :: world where
  "world_missing_field = scripted [data_page [entry_C], data_page []]"

text \<open>A record with an empty match field before a regular one.\<close>

definition world_blank :: world where
  "world_blank = scripted [data_page [entry_blank, entry_A], data_page []]"

text \<open>A record without \<^verbatim>\<open>id\<close> and with an empty match field, and one whose attributes are null.\<close>

definition entry_no_id :: json where
  "entry_no_id = JObj [(''agendaFormatName'', JStr ''Lunch''), (''match'', JStr [])]"

definition entry_null_attributes :: json where
  "entry_null_attributes = JObj [(''id'', JInt 5), (''attributes'', JNull)]"

definition world_no_id :: world where
  "world_no_id = scripted [data_page [entry_no_id], data_page []]"

section \<open>Properties\<close>

subsection \<open>Dicts and records\<close>

lemma dict_get_set: "dict_get (dict_set d k v) k' = (if k' = k then v else dict_get d k')"
  by (simp add: dict_get_def dict_set_def update_conv')

lemma skip_record_cases: "skip_record r = Inr x \<Longrightarrow> x = None"
  by (auto simp: skip_record_def split: sum.splits)

lemma fetch_record_truthy:
  assumes "fetch_record mf r = Inr (Some a)"
  shows "truthy (dict_get a mf)"
proof -
  from assms obtain kvs i where
    a: "a = dict_set (dict_set kvs ''id'' i) ''match_field'' (dict_get (dict_set kvs ''id'' i) mf)"
    and t: "truthy (dict_get (dict_set kvs ''id'' i) mf)"
    unfolding fetch_record_def Let_def
    by (fastforce split: sum.splits json.splits if_splits dest: skip_record_cases)
  show ?thesis unfolding a using t by (cases "mf = ''match_field''") (simp_all add: dict_get_set)
qed

lemma fetch_record_attributes_of:
  assumes "attributes_of r = Some a"
  shows "fetch_record mf r =
           (if truthy (dict_get a mf) then Inr (Some (dict_set a ''match_field'' (dict_get a mf)))
            else Inr None)"
proof -
  from assms obtain kvs where r: "r = JObj kvs"
    by (cases r) (simp_all add: attributes_of_def)
  from assms r obtain i where i: "map_of kvs ''id'' = Some i"
    by (cases "map_of kvs ''id''") (simp_all add: attributes_of_def)
  have skip: "skip_record r = Inr None"
    by (simp add: skip_record_def r)
  show ?thesis
  proof (cases "''attributes'' \<in> fst ` set kvs")
    case True
    with assms r i obtain b where b: "dict_get kvs ''attributes'' = JObj b" "b \<noteq> []"
      and a: "a = dict_set b ''id'' i"
      by (auto simp: attributes_of_def split: json.splits if_splits)
    from b have "(case map_of kvs ''attributes'' of None \<Rightarrow> JNull | Some v \<Rightarrow> v) = JObj b"
      by (simp add: dict_get_def)
    with True b a i skip show ?thesis
      by (simp add: fetch_record_def r Let_def)
  next
    case False
    with assms r i have a: "a = dict_set kvs ''id'' i" and ne: "kvs \<noteq> []"
      by (auto simp: attributes_of_def split: if_splits)
    with False i skip show ?thesis
      by (simp add: fetch_record_def r Let_def)
  qed
qed

lemma fetch_records_acc:
  "fetch_records mf rs acc =
     (case fetch_records mf rs [] of Inl e \<Rightarrow> Inl e | Inr es \<Rightarrow> Inr (acc @ es))"
proof (induction rs arbitrary: acc)
  case Nil
  show ?case by simp
next
  case (Cons r rs)
  show ?case
  proof (cases "fetch_record mf r")
    case (Inl e)
    then show ?thesis by simp
  next
    case (Inr x)
    show ?thesis
    proof (cases x)
      case None
      with Inr Cons.IH [of acc] show ?thesis by simp
    next
      case (Some a)
      with Inr Cons.IH [of "acc @ [a]"] Cons.IH [of "[a]"] show ?thesis
        by (simp split: sum.splits)
    qed
  qed
qed

lemma fetch_records_truthy:
  "fetch_records mf rs acc = Inr es \<Longrightarrow> \<forall>e\<in>set acc. truthy (dict_get e mf)
     \<Longrightarrow> \<forall>e\<in>set es. truthy (dict_get e mf)"
proof (induction rs arbitrary: acc)
  case Nil
  then show ?case by simp
next
  case (Cons r rs)
  show ?case
  proof (cases "fetch_record mf r")
    case (Inl e)
    with Cons.prems show ?thesis by simp
  next
    case (Inr x)
    show ?thesis
    proof (cases x)
      case None
      with Inr Cons show ?thesis by simp
    next
      case (Some a)
      with Inr have "truthy (dict_get a mf)" by (simp add: fetch_record_truthy)
      with Some Inr Cons.prems Cons.IH [of "acc @ [a]"] show ?thesis by simp
    qed
  qed
qed

lemma page_step_truthy:
  "page_step mf d acc = Inr r \<Longrightarrow> \<forall>e\<in>set acc. truthy (dict_get e mf)
     \<Longrightarrow> \<forall>e\<in>set (case r of Break es \<Rightarrow> es | Continue es \<Rightarrow> es). truthy (dict_get e mf)"
  unfolding page_step_def
  by (auto split: sum.splits if_splits dest: fetch_records_truthy)

lemma page_step_acc:
  "page_step mf d acc =
     (case page_step mf d [] of
        Inl e \<Rightarrow> Inl e
      | Inr (Break _) \<Rightarrow> Inr (Break acc)
      | Inr (Continue es) \<Rightarrow> Inr (Continue (acc @ es)))"
proof (cases "truthy d")
  case False
  then show ?thesis by (simp add: page_step_def)
next
  case True
  show ?thesis
  proof (cases "py_index0 d")
    case (Inl e)
    with True show ?thesis by (simp add: page_step_def)
  next
    case i0: (Inr x)
    show ?thesis
    proof (cases "py_iter d")
      case (Inl e)
      with True i0 show ?thesis by (simp add: page_step_def)
    next
      case (Inr rs)
      with True i0 fetch_records_acc [of mf rs acc] show ?thesis
        by (simp add: page_step_def split: sum.splits)
    qed
  qed
qed

lemma page_step_Break: "page_step mf d acc = Inr (Break es) \<longleftrightarrow> \<not> truthy d \<and> es = acc"
  by (auto simp: page_step_def split: sum.splits)

subsection \<open>The pagination loop\<close>

lemma fetch_page_eq:
  "fetch_page ev w c mf p acc h =
     (case (case respond w (h @ [source_request ev c p]) of
              Raises m \<Rightarrow> Inl (Requests (RequestException m))
            | Replies res \<Rightarrow> response_data res) of
        Inl e \<Rightarrow> Inl e
      | Inr d \<Rightarrow> page_step mf d acc,
      h @ [source_request ev c p])"
  by (simp add: fetch_page_def send_def split: reply.splits sum.splits)

lemma page_history_Suc:
  "page_history ev c (Suc n) = page_history ev c n @ [source_request ev c (Suc n)]"
  by (simp add: page_history_def)

lemma fetch_page_at:
  "fetch_page ev w c mf (Suc q) acc (page_history ev c q) =
     (case page_data ev w c (Suc q) of Inl e \<Rightarrow> Inl e | Inr d \<Rightarrow> page_step mf d acc,
      page_history ev c (Suc q))"
  by (simp add: fetch_page_eq page_data_def page_reply_def page_history_Suc)

lemma run_pages_fetch_pages:
  "run_pages n ev w c mf p acc h = Some r \<Longrightarrow> fetch_pages ev w c mf p acc h = Some r"
proof (induction n arbitrary: p acc h)
  case 0
  then show ?case by simp
next
  case (Suc n)
  obtain x h' where fp: "fetch_page ev w c mf p acc h = (x, h')"
    by (cases "fetch_page ev w c mf p acc h")
  show ?case
  proof (cases x)
    case (Inl e)
    with fp Suc.prems show ?thesis by (simp add: fetch_pages.simps)
  next
    case (Inr l)
    then show ?thesis
    proof (cases l)
      case (Break es)
      with Inr fp Suc.prems show ?thesis by (simp add: fetch_pages.simps)
    next
      case (Continue es)
      with Inr fp Suc.prems have "run_pages n ev w c mf (p + 1) es h' = Some r" by simp
      then have "fetch_pages ev w c mf (p + 1) es h' = Some r" by (rule Suc.IH)
      with Continue Inr fp show ?thesis by (simp add: fetch_pages.simps [of ev w c mf p])
    qed
  qed
qed

lemma fetch_pages_run_pages:
  assumes "fetch_pages ev w c mf p acc h = Some r"
  shows "\<exists>n. run_pages n ev w c mf p acc h = Some r"
proof (rule fetch_pages.raw_induct
    [where P = "\<lambda>ev w c mf p acc h r. \<exists>n. run_pages n ev w c mf p acc h = Some r", OF _ assms])
  fix f :: "env \<Rightarrow> world \<Rightarrow> string \<Rightarrow> string \<Rightarrow> nat \<Rightarrow> dict list \<Rightarrow> request list
     \<Rightarrow> ((exn + dict list) \<times> request list) option"
  fix ev w c mf p acc h r
  assume IH: "\<And>ev w c mf p acc h r. f ev w c mf p acc h = Some r
      \<Longrightarrow> \<exists>n. run_pages n ev w c mf p acc h = Some r"
  assume step: "(case fetch_page ev w c mf p acc h of
        (Inl e, h') \<Rightarrow> Some (Inl e, h')
      | (Inr (Break entries'), h') \<Rightarrow> Some (Inr entries', h')
      | (Inr (Continue entries'), h') \<Rightarrow> f ev w c mf (p + 1) entries' h') = Some r"
  obtain x h' where fp: "fetch_page ev w c mf p acc h = (x, h')"
    by (cases "fetch_page ev w c mf p acc h")
  show "\<exists>n. run_pages n ev w c mf p acc h = Some r"
  proof (cases x)
    case (Inl e)
    with fp step have "run_pages (Suc 0) ev w c mf p acc h = Some r" by simp
    then show ?thesis ..
  next
    case (Inr l)
    then show ?thesis
    proof (cases l)
      case (Break es)
      with Inr fp step have "run_pages (Suc 0) ev w c mf p acc h = Some r" by simp
      then show ?thesis ..
    next
      case (Continue es)
      with Inr fp step have "f ev w c mf (p + 1) es h' = Some r" by simp
      then obtain n where "run_pages n ev w c mf (p + 1) es h' = Some r" using IH by blast
      with Continue Inr fp have "run_pages (Suc n) ev w c mf p acc h = Some r" by simp
      then show ?thesis ..
    qed
  qed
qed

lemma run_pages_truthy:
  "run_pages n ev w c mf p acc h = Some (Inr es, h') \<Longrightarrow> \<forall>e\<in>set acc. truthy (dict_get e mf)
     \<Longrightarrow> \<forall>e\<in>set es. truthy (dict_get e mf)"
proof (induction n arbitrary: p acc h)
  case 0
  then show ?case by simp
next
  case (Suc n)
  let ?q = "source_request ev c p"
  obtain x where fp: "fetch_page ev w c mf p acc h = (x, h @ [?q])"
    by (simp add: fetch_page_eq)
  show ?case
  proof (cases x)
    case (Inl e)
    with fp Suc.prems show ?thesis by simp
  next
    case (Inr l)
    from fp Inr obtain d where d: "page_step mf d acc = Inr l"
      by (auto simp: fetch_page_eq split: sum.splits)
    show ?thesis
    proof (cases l)
      case (Break es')
      with Inr fp Suc.prems have "es' = es" by simp
      with Break page_step_truthy [OF d Suc.prems(2)] show ?thesis by simp
    next
      case (Continue es')
      with page_step_truthy [OF d Suc.prems(2)]
      have t: "\<forall>e\<in>set es'. truthy (dict_get e mf)" by simp
      from Continue Inr fp Suc.prems
      have "run_pages n ev w c mf (p + 1) es' (h @ [?q]) = Some (Inr es, h')" by simp
      from Suc.IH [OF this t] show ?thesis .
    qed
  qed
qed

lemma pages_stop:
  "(\<forall>k<n. page_nonempty ev w c mf (Suc (q + k))) \<Longrightarrow> page_empty ev w c (Suc (q + n))
     \<Longrightarrow> \<exists>es. fetch_pages ev w c mf (Suc q) acc (page_history ev c q)
              = Some (Inr es, page_history ev c (Suc (q + n)))"
proof (induction n arbitrary: q acc)
  case 0
  then obtain d where "page_data ev w c (Suc q) = Inr d" "\<not> truthy d"
    by (auto simp: page_empty_def split: sum.splits)
  then have "fetch_page ev w c mf (Suc q) acc (page_history ev c q)
               = (Inr (Break acc), page_history ev c (Suc q))"
    by (simp add: fetch_page_at page_step_def)
  then show ?case
    by (simp add: fetch_pages.simps [of ev w c mf "Suc q"])
next
  case (Suc n)
  from Suc.prems(1) have "page_nonempty ev w c mf (Suc (q + 0))" by blast
  then obtain d x where d: "page_data ev w c (Suc q) = Inr d" "truthy d"
    and x: "page_step mf d [] = Inr x"
    by (auto simp: page_nonempty_def split: sum.splits)
  from d x obtain es0 where "x = Continue es0"
    by (cases x) (simp_all add: page_step_Break)
  with x have "page_step mf d acc = Inr (Continue (acc @ es0))"
    by (simp add: page_step_acc [of mf d acc])
  with d have fp: "fetch_page ev w c mf (Suc q) acc (page_history ev c q)
               = (Inr (Continue (acc @ es0)), page_history ev c (Suc q))"
    by (simp add: fetch_page_at)
  have "\<forall>k<n. page_nonempty ev w c mf (Suc (Suc q + k))"
  proof (intro allI impI)
    fix k assume "k < n"
    then have "Suc k < Suc n" by simp
    with Suc.prems(1) have "page_nonempty ev w c mf (Suc (q + Suc k))" by blast
    then show "page_nonempty ev w c mf (Suc (Suc q + k))" by simp
  qed
  moreover from Suc.prems(2) have "page_empty ev w c (Suc (Suc q + n))" by simp
  ultimately obtain es where
    "fetch_pages ev w c mf (Suc (Suc q)) (acc @ es0) (page_history ev c (Suc q))
       = Some (Inr es, page_history ev c (Suc (Suc q + n)))"
    using Suc.IH [of "Suc q" "acc @ es0"] by blast
  with fp show ?case
    by (simp add: fetch_pages.simps [of ev w c mf "Suc q"])
qed

lemma pages_stopped:
  "run_pages m ev w c mf (Suc q) acc (page_history ev c q) = Some (Inr es, h')
     \<Longrightarrow> \<exists>n. h' = page_history ev c (Suc (q + n))
            \<and> (\<forall>k<n. page_nonempty ev w c mf (Suc (q + k)))
            \<and> page_empty ev w c (Suc (q + n))"
proof (induction m arbitrary: q acc)
  case 0
  then show ?case by simp
next
  case (Suc m)
  show ?case
  proof (cases "page_data ev w c (Suc q)")
    case (Inl e)
    with Suc.prems show ?thesis by (simp add: fetch_page_at)
  next
    case (Inr d)
    show ?thesis
    proof (cases "page_step mf d acc")
      case (Inl e)
      with Inr Suc.prems show ?thesis by (simp add: fetch_page_at)
    next
      case step: (Inr l)
      show ?thesis
      proof (cases l)
        case (Break es')
        with step have "\<not> truthy d" by (simp add: page_step_Break)
        with Inr have "page_empty ev w c (Suc (q + 0))" by (simp add: page_empty_def)
        moreover from Break step Inr Suc.prems have "h' = page_history ev c (Suc (q + 0))"
          by (simp add: fetch_page_at)
        ultimately show ?thesis by blast
      next
        case (Continue es')
        with step have t: "truthy d" by (auto simp: page_step_def split: sum.splits if_splits)
        from step page_step_acc [of mf d acc] obtain y where "page_step mf d [] = Inr y"
          by (cases "page_step mf d []") simp_all
        with t Inr have ne: "page_nonempty ev w c mf (Suc q)"
          by (simp add: page_nonempty_def)
        from Continue step Inr Suc.prems
        have "run_pages m ev w c mf (Suc (Suc q)) es' (page_history ev c (Suc q)) = Some (Inr es, h')"
          by (simp add: fetch_page_at)
        from Suc.IH [OF this] obtain n where n: "h' = page_history ev c (Suc (Suc q + n))"
          "\<forall>k<n. page_nonempty ev w c mf (Suc (Suc q + k))"
          "page_empty ev w c (Suc (Suc q + n))" by blast
        have "\<forall>k<Suc n. page_nonempty ev w c mf (Suc (q + k))"
        proof (intro allI impI)
          fix k assume k: "k < Suc n"
          show "page_nonempty ev w c mf (Suc (q + k))"
          proof (cases k)
            case 0
            with ne show ?thesis by simp
          next
            case (Suc j)
            with k n(2) have "page_nonempty ev w c mf (Suc (Suc q + j))" by simp
            with Suc show ?thesis by simp
          qed
        qed
        with n(1,3) have "h' = page_history ev c (Suc (q + Suc n))
            \<and> (\<forall>k<Suc n. page_nonempty ev w c mf (Suc (q + k)))
            \<and> page_empty ev w c (Suc (q + Suc n))" by simp
        then show ?thesis by blast
      qed
    qed
  qed
qed

lemma page_history_spelled:
  "page_history ev c m =
     map (\<lambda>k. \<lparr>meth = GET,
                url = SOURCE_API ev @ ''/api/'' @ c
                  @ ''?pagination[pageSize]=100&pagination[page]='' @ show_nat k
                  @ ''&filters[publishedAt][$notNull]=true&populate=*'',
                bearer = SOURCE_TOKEN ev, payload = None\<rparr>) [1..<Suc m]"
  by (simp add: page_history_def source_request_def source_url_def)

text \<open>
  C7. The pagination loop requests pages 1, 2, ... in order and returns exactly when it
  meets the first page that yields no entries: \<^verbatim>\<open>fetch_entries\<close> returns normally with the
  requests \<open>h\<close> made if and only if, for some \<open>n\<close>, pages 1 to \<open>n\<close> yield entries, page
  \<open>n + 1\<close> yields none, and \<open>h\<close> is, for \<open>k\<close> from 1 to \<open>n + 1\<close> in this order, the GET of
  the source URL whose \<^verbatim>\<open>pagination[page]\<close> is \<open>k\<close>, and no other request.
\<close>

theorem pagination_stops_at_first_empty_page:
  "(\<exists>es. fetch_entries ev w c mf = Some (Inr es, h))
     \<longleftrightarrow> (\<exists>n. h = map (\<lambda>k. \<lparr>meth = GET,
                            url = SOURCE_API ev @ ''/api/'' @ c
                              @ ''?pagination[pageSize]=100&pagination[page]='' @ show_nat k
                              @ ''&filters[publishedAt][$notNull]=true&populate=*'',
                            bearer = SOURCE_TOKEN ev, payload = None\<rparr>) [1..<Suc (Suc n)]
              \<and> (\<forall>k<n. page_nonempty ev w c mf (Suc k))
              \<and> page_empty ev w c (Suc n))"
  unfolding page_history_spelled [symmetric]
proof
  assume "\<exists>es. fetch_entries ev w c mf = Some (Inr es, h)"
  then obtain es where "fetch_pages ev w c mf (Suc 0) [] (page_history ev c 0) = Some (Inr es, h)"
    by (auto simp: fetch_entries_def page_history_def)
  then obtain m where
    "run_pages m ev w c mf (Suc 0) [] (page_history ev c 0) = Some (Inr es, h)"
    using fetch_pages_run_pages by blast
  from pages_stopped [OF this]
  show "\<exists>n. h = page_history ev c (Suc n) \<and> (\<forall>k<n. page_nonempty ev w c mf (Suc k))
              \<and> page_empty ev w c (Suc n)"
    by simp
next
  assume "\<exists>n. h = page_history ev c (Suc n) \<and> (\<forall>k<n. page_nonempty ev w c mf (Suc k))
              \<and> page_empty ev w c (Suc n)"
  then obtain n where n: "h = page_history ev c (Suc n)"
    "\<forall>k<n. page_nonempty ev w c mf (Suc (0 + k))" "page_empty ev w c (Suc (0 + n))"
    by auto
  from pages_stop [OF n(2,3), of "[]"] n(1)
  show "\<exists>es. fetch_entries ev w c mf = Some (Inr es, h)"
    by (simp add: fetch_entries_def page_history_def)
qed

lemmas world_defs = scripted_def demo_env_def answer_def data_page_def entry_A_def entry_B_def

lemmas fetch_defs =
  page_nonempty_def page_empty_def page_data_def page_reply_def page_history_def
  source_request_def source_url_def response_data_def raise_for_status_def res_json_def
  page_step_def fetch_record_def skip_record_def dict_get_def dict_set_def Let_def

theorem pagination_stops_at_first_empty_page_witness:
  "\<exists>es. fetch_entries demo_env (scripted [data_page [entry_A], data_page []]) ''agenda'' ''match''
          = Some (Inr es,
              [\<lparr>meth = GET,
                url = ''http://src/api/agenda?pagination[pageSize]=100&pagination[page]=1&filters[publishedAt][$notNull]=true&populate=*'',
                bearer = ''s'', payload = None\<rparr>,
               \<lparr>meth = GET,
                url = ''http://src/api/agenda?pagination[pageSize]=100&pagination[page]=2&filters[publishedAt][$notNull]=true&populate=*'',
                bearer = ''s'', payload = None\<rparr>])"
proof -
  let ?w = "scripted [data_page [entry_A], data_page []]"
  let ?h = "[\<lparr>meth = GET,
              url = ''http://src/api/agenda?pagination[pageSize]=100&pagination[page]=1&filters[publishedAt][$notNull]=true&populate=*'',
              bearer = ''s'', payload = None\<rparr>,
             \<lparr>meth = GET,
              url = ''http://src/api/agenda?pagination[pageSize]=100&pagination[page]=2&filters[publishedAt][$notNull]=true&populate=*'',
              bearer = ''s'', payload = None\<rparr>]"
  have 1: "page_nonempty demo_env ?w ''agenda'' ''match'' (Suc 0)"
    by (simp add: world_defs fetch_defs)
  have 2: "page_empty demo_env ?w ''agenda'' (Suc (Suc 0))"
    by (simp add: world_defs fetch_defs)
  have 3: "?h = map (\<lambda>k. \<lparr>meth = GET,
                            url = SOURCE_API demo_env @ ''/api/'' @ ''agenda''
                              @ ''?pagination[pageSize]=100&pagination[page]='' @ show_nat k
                              @ ''&filters[publishedAt][$notNull]=true&populate=*'',
                            bearer = SOURCE_TOKEN demo_env, payload = None\<rparr>)
                 [1..<Suc (Suc (Suc 0))]"
    by code_simp
  from 1 have all: "\<forall>k<Suc 0. page_nonempty demo_env ?w ''agenda'' ''match'' (Suc k)" by simp
  have "\<exists>n. ?h = map (\<lambda>k. \<lparr>meth = GET,
                            url = SOURCE_API demo_env @ ''/api/'' @ ''agenda''
                              @ ''?pagination[pageSize]=100&pagination[page]='' @ show_nat k
                              @ ''&filters[publishedAt][$notNull]=true&populate=*'',
                            bearer = SOURCE_TOKEN demo_env, payload = None\<rparr>)
                 [1..<Suc (Suc n)]
              \<and> (\<forall>k<n. page_nonempty demo_env ?w ''agenda'' ''match'' (Suc k))
              \<and> page_empty demo_env ?w ''agenda'' (Suc n)"
    by (rule exI [of _ "Suc 0"], intro conjI) (rule 3 all 2)+
  then show ?thesis
    by (rule pagination_stops_at_first_empty_page [THEN iffD2])
qed

subsection \<open>Lookup, upsert and the loop over the entries\<close>

lemma fetch_entries_run_pages:
  "run_pages n ev w c mf 1 [] [] = Some r \<Longrightarrow> fetch_entries ev w c mf = Some r"
  by (simp add: fetch_entries_def run_pages_fetch_pages)

lemma find_existing_entry_eq:
  "find_existing_entry ev w c mf v h =
     (case (case respond w (h @ [lookup_request ev w c mf v]) of
              Raises m \<Rightarrow> Inl (Requests (RequestException m))
            | Replies res \<Rightarrow> response_data res) of
        Inl e \<Rightarrow> Inl e
      | Inr d \<Rightarrow> existing_of_data d,
      h @ [lookup_request ev w c mf v])"
  by (simp add: find_existing_entry_def send_def split: reply.splits sum.splits)

lemma existing_of_data_Some:
  "existing_of_data d = Inr (Some x) \<Longrightarrow> \<exists>doc. x = [(''documentId'', doc)]"
  by (auto simp: existing_of_data_def split: if_splits sum.splits json.splits)

lemma find_existing_entry_Some:
  "find_existing_entry ev w c mf v h = (Inr (Some x), h') \<Longrightarrow> \<exists>doc. x = [(''documentId'', doc)]"
  by (auto simp: find_existing_entry_eq split: sum.splits reply.splits dest: existing_of_data_Some)

lemma response_data_error_status:
  "error_status res \<Longrightarrow> response_data res = Inl (Requests (HTTPError (http_error_msg res)))"
  by (simp add: response_data_def raise_for_status_def error_status_def)

lemma call_eq:
  "call w q h =
     (case respond w (h @ [q]) of
        Raises m \<Rightarrow> Inl (RequestException m)
      | Replies res \<Rightarrow> raise_for_status res,
      h @ [q])"
  by (simp add: call_def send_def split: reply.splits)

lemma upsert_dry_run:
  "upsert ev w c True ex doc pl h = (Inr (if has_existing ex then ''updated'' else ''created''), h)"
  by (simp add: upsert_def)

lemma upsert_live:
  "upsert ev w c False ex doc pl h =
     (let q = (if has_existing ex then update_request ev w c doc pl else create_request ev c pl)
      in (case respond w (h @ [q]) of
            Raises m \<Rightarrow> Inl (RequestException m)
          | Replies res \<Rightarrow>
              (case raise_for_status res of
                 Inl e \<Rightarrow> Inl e
               | Inr _ \<Rightarrow> Inr (if has_existing ex then ''updated'' else ''created'')),
          h @ [q]))"
  by (simp add: upsert_def call_eq Let_def split: reply.splits sum.splits)

text \<open>The loop body once the payload and the lookup result are known.\<close>

lemma migrate_entry_reached:
  assumes "sanitize_payload e = Inr pl"
    and "find_existing_entry ev w c mf (dict_get e mf) h = (Inr ex, h1)"
  shows "migrate_entry ev w c mf dr e rows h =
           (case upsert ev w c dr ex (doc_id_of ex) [(''data'', JObj pl)] h1 of
              (Inr action, h2) \<Rightarrow>
                (Inr (rows @
                   [\<lparr>row_entry = dict_get e mf, row_action = action, row_error = [],
                     row_timestamp = clock w (length rows), row_dry_run = dr\<rparr>]), h2)
            | (Inl x, h2) \<Rightarrow>
                (Inr (rows @
                   [\<lparr>row_entry = dict_get e mf, row_action = ''failed'', row_error = str_exn x,
                     row_timestamp = clock w (length rows), row_dry_run = dr\<rparr>]), h2))"
  using assms by (simp add: migrate_entry_def Let_def)

lemma migrate_entry_cases:
  assumes "migrate_entry ev w c mf dr e rows h = (Inr rows', h')"
  obtains pl ex h1 where "sanitize_payload e = Inr pl"
    and "find_existing_entry ev w c mf (dict_get e mf) h = (Inr ex, h1)"
proof -
  from assms obtain pl where pl: "sanitize_payload e = Inr pl"
    by (cases "sanitize_payload e") (simp_all add: migrate_entry_def Let_def)
  obtain x h1 where f: "find_existing_entry ev w c mf (dict_get e mf) h = (x, h1)"
    by (cases "find_existing_entry ev w c mf (dict_get e mf) h")
  with assms pl obtain ex where "x = Inr ex"
    by (cases x) (simp_all add: migrate_entry_def Let_def)
  with pl f that show ?thesis by blast
qed

lemma migrate_entry_row:
  assumes "migrate_entry ev w c mf dr e rows h = (Inr rows', h')"
  shows "\<exists>r. rows' = rows @ [r] \<and> row_entry r = dict_get e mf \<and> row_dry_run r = dr"
proof -
  from assms obtain pl ex h1 where "sanitize_payload e = Inr pl"
    and "find_existing_entry ev w c mf (dict_get e mf) h = (Inr ex, h1)"
    by (rule migrate_entry_cases)
  from migrate_entry_reached [OF this, of dr rows] assms show ?thesis
    by (auto split: prod.splits sum.splits)
qed

lemma migrate_entries_rows:
  "migrate_entries ev w c mf dr es rows h = (Inr rows', h')
     \<Longrightarrow> \<exists>new. rows' = rows @ new \<and> map row_entry new = map (\<lambda>e. dict_get e mf) es"
proof (induction es arbitrary: rows h)
  case Nil
  then show ?case by simp
next
  case (Cons e es)
  obtain x h1 where m: "migrate_entry ev w c mf dr e rows h = (x, h1)"
    by (cases "migrate_entry ev w c mf dr e rows h")
  with Cons.prems obtain rows1 where x: "x = Inr rows1"
    by (cases x) simp_all
  with m obtain r where r: "rows1 = rows @ [r]" "row_entry r = dict_get e mf"
    using migrate_entry_row by blast
  from m x Cons.prems have "migrate_entries ev w c mf dr es rows1 h1 = (Inr rows', h')"
    by simp
  from Cons.IH [OF this] obtain new where
    "rows' = rows1 @ new" "map row_entry new = map (\<lambda>e. dict_get e mf) es" by blast
  with r have "rows' = rows @ (r # new) \<and> map row_entry (r # new) = map (\<lambda>e. dict_get e mf) (e # es)"
    by simp
  then show ?case by blast
qed

lemma migrate_entries_append:
  "migrate_entries ev w c mf dr (xs @ ys) rows h =
     (case migrate_entries ev w c mf dr xs rows h of
        (Inl e, h') \<Rightarrow> (Inl e, h')
      | (Inr rows', h') \<Rightarrow> migrate_entries ev w c mf dr ys rows' h')"
  by (induction xs arbitrary: rows h) (auto split: prod.splits sum.splits)

lemma migrate_collection_cases:
  assumes "migrate_collection ev w c mf dr = Some (Report_Written rows, h)"
  obtains es h0 where "fetch_entries ev w c mf = Some (Inr es, h0)"
    and "migrate_entries ev w c mf dr es [] h0 = (Inr rows, h)"
  using assms unfolding migrate_collection_def
  by (auto split: option.splits prod.splits sum.splits)

text \<open>
  C4. A run that writes its report writes one row per fetched entry, in fetch order: the
  rows are as many as the entries \<^verbatim>\<open>fetch_entries\<close> returned, and the \<open>i\<close>-th row is
  about the \<open>i\<close>-th entry, whether its upsert succeeded or failed.
\<close>

theorem one_report_row_per_fetched_entry:
  assumes "migrate_collection ev w c mf dr = Some (Report_Written rows, h)"
  shows "\<exists>es h0. fetch_entries ev w c mf = Some (Inr es, h0)
           \<and> length rows = length es
           \<and> map row_entry rows = map (\<lambda>e. dict_get e mf) es"
proof -
  from assms obtain es h0 where f: "fetch_entries ev w c mf = Some (Inr es, h0)"
    and m: "migrate_entries ev w c mf dr es [] h0 = (Inr rows, h)"
    by (rule migrate_collection_cases)
  from migrate_entries_rows [OF m]
  have e: "map row_entry rows = map (\<lambda>e. dict_get e mf) es" by simp
  then have "length rows = length es" by (rule map_eq_imp_length_eq)
  with f e show ?thesis by blast
qed

subsection \<open>Dry runs\<close>

lemma run_pages_only_gets:
  "run_pages n ev w c mf p acc h = Some (x, h') \<Longrightarrow> \<forall>q\<in>set h. meth q = GET
     \<Longrightarrow> \<forall>q\<in>set h'. meth q = GET"
proof (induction n arbitrary: p acc h)
  case 0
  then show ?case by simp
next
  case (Suc n)
  let ?q = "source_request ev c p"
  have g: "\<forall>q\<in>set (h @ [?q]). meth q = GET"
    using Suc.prems(2) by (simp add: source_request_def)
  obtain y where fp: "fetch_page ev w c mf p acc h = (y, h @ [?q])"
    by (simp add: fetch_page_eq)
  show ?case
  proof (cases y)
    case (Inl e)
    with fp Suc.prems(1) g show ?thesis by auto
  next
    case (Inr l)
    show ?thesis
    proof (cases l)
      case (Break es)
      with Inr fp Suc.prems(1) g show ?thesis by auto
    next
      case (Continue es)
      with Inr fp Suc.prems(1)
      have "run_pages n ev w c mf (p + 1) es (h @ [?q]) = Some (x, h')" by simp
      from Suc.IH [OF this g] show ?thesis .
    qed
  qed
qed

lemma fetch_entries_only_gets:
  assumes "fetch_entries ev w c mf = Some (x, h)"
  shows "\<forall>q\<in>set h. meth q = GET"
proof -
  from assms obtain n where "run_pages n ev w c mf 1 [] [] = Some (x, h)"
    unfolding fetch_entries_def using fetch_pages_run_pages by blast
  from run_pages_only_gets [OF this] show ?thesis by simp
qed

lemma migrate_entry_dry_run_history:
  "snd (migrate_entry ev w c mf True e rows h) = h
     \<or> snd (migrate_entry ev w c mf True e rows h) = h @ [lookup_request ev w c mf (dict_get e mf)]"
  by (simp add: migrate_entry_def Let_def find_existing_entry_eq upsert_dry_run
      split: sum.splits reply.splits)

lemma migrate_entries_dry_run_only_gets:
  "\<forall>q\<in>set h. meth q = GET
     \<Longrightarrow> \<forall>q\<in>set (snd (migrate_entries ev w c mf True es rows h)). meth q = GET"
proof (induction es arbitrary: rows h)
  case Nil
  then show ?case by simp
next
  case (Cons e es)
  obtain x h1 where m: "migrate_entry ev w c mf True e rows h = (x, h1)"
    by (cases "migrate_entry ev w c mf True e rows h")
  with migrate_entry_dry_run_history [of ev w c mf e rows h]
  have "h1 = h \<or> h1 = h @ [lookup_request ev w c mf (dict_get e mf)]" by simp
  with Cons.prems have g: "\<forall>q\<in>set h1. meth q = GET"
    by (auto simp: lookup_request_def)
  show ?case
  proof (cases x)
    case (Inl err)
    with m g show ?thesis by simp
  next
    case (Inr rows1)
    with m Cons.IH [OF g, of rows1] show ?thesis by simp
  qed
qed

lemma migrate_entry_dry_run_row:
  assumes "migrate_entry ev w c mf True e rows h = (Inr rows', h')"
  shows "\<exists>r. rows' = rows @ [r] \<and> (row_action r = ''created'' \<or> row_action r = ''updated'')
               \<and> row_error r = []"
proof -
  from assms obtain pl ex h1 where "sanitize_payload e = Inr pl"
    and "find_existing_entry ev w c mf (dict_get e mf) h = (Inr ex, h1)"
    by (rule migrate_entry_cases)
  from migrate_entry_reached [OF this, of True rows] assms show ?thesis
    by (auto simp: upsert_dry_run)
qed

lemma migrate_entries_dry_run_rows:
  "migrate_entries ev w c mf True es rows h = (Inr rows', h')
     \<Longrightarrow> \<forall>r\<in>set rows. (row_action r = ''created'' \<or> row_action r = ''updated'') \<and> row_error r = []
     \<Longrightarrow> \<forall>r\<in>set rows'. (row_action r = ''created'' \<or> row_action r = ''updated'') \<and> row_error r = []"
proof (induction es arbitrary: rows h)
  case Nil
  then show ?case by simp
next
  case (Cons e es)
  obtain x h1 where m: "migrate_entry ev w c mf True e rows h = (x, h1)"
    by (cases "migrate_entry ev w c mf True e rows h")
  with Cons.prems(1) obtain rows1 where x: "x = Inr rows1"
    by (cases x) simp_all
  with m obtain r where "rows1 = rows @ [r]"
    "(row_action r = ''created'' \<or> row_action r = ''updated'') \<and> row_error r = []"
    using migrate_entry_dry_run_row by blast
  with Cons.prems(2)
  have ok: "\<forall>r\<in>set rows1. (row_action r = ''created'' \<or> row_action r = ''updated'') \<and> row_error r = []"
    by auto
  from m x Cons.prems(1) have "migrate_entries ev w c mf True es rows1 h1 = (Inr rows', h')"
    by simp
  from Cons.IH [OF this ok] show ?case .
qed

text \<open>
  C5, as amended. With \<^verbatim>\<open>dry_run\<close> set, an entry whose payload is built and whose lookup
  returns adds one row with the action it would have taken, \<^verbatim>\<open>updated\<close> when the lookup
  returned a match and \<^verbatim>\<open>created\<close> when it returned none, with no error, and sends
  nothing but the GET of the lookup; and every request of a whole dry run, however it
  ends, is a GET, so no PUT and no POST is issued.
\<close>

theorem dry_run_records_action_without_writing:
  "(sanitize_payload e = Inr pl
      \<and> find_existing_entry ev w c mf (dict_get e mf) h = (Inr ex, h1)
    \<longrightarrow> migrate_entry ev w c mf True e rows h =
          (Inr (rows @
             [\<lparr>row_entry = dict_get e mf,
               row_action = (case ex of Some d \<Rightarrow> ''updated'' | None \<Rightarrow> ''created''),
               row_error = [], row_timestamp = clock w (length rows), row_dry_run = True\<rparr>]),
           h @ [\<lparr>meth = GET,
                url = DEST_API ev @ ''/api/'' @ c @ ''?filters['' @ mf @ ''][$eq]=''
                        @ py_str (container_repr w) (dict_get e mf),
                bearer = DEST_TOKEN ev, payload = None\<rparr>]))
   \<and> (migrate_collection ev w c mf True = Some (r, hh) \<longrightarrow> (\<forall>q\<in>set hh. meth q = GET))"
proof (intro conjI impI)
  assume a: "sanitize_payload e = Inr pl
      \<and> find_existing_entry ev w c mf (dict_get e mf) h = (Inr ex, h1)"
  then have h1: "h1 = h @ [lookup_request ev w c mf (dict_get e mf)]"
    by (simp add: find_existing_entry_eq)
  have act: "(if has_existing ex then ''updated'' else ''created'')
               = (case ex of Some d \<Rightarrow> ''updated'' | None \<Rightarrow> ''created'')"
  proof (cases ex)
    case None
    then show ?thesis by simp
  next
    case (Some d)
    with a obtain doc where "d = [(''documentId'', doc)]"
      using find_existing_entry_Some by blast
    with Some show ?thesis by simp
  qed
  from a h1 migrate_entry_reached [of e pl ev w c mf h ex h1 True rows]
  have "migrate_entry ev w c mf True e rows h =
          (Inr (rows @
             [\<lparr>row_entry = dict_get e mf,
               row_action = (if has_existing ex then ''updated'' else ''created''),
               row_error = [], row_timestamp = clock w (length rows), row_dry_run = True\<rparr>]),
           h @ [lookup_request ev w c mf (dict_get e mf)])"
    by (simp add: upsert_dry_run)
  then show "migrate_entry ev w c mf True e rows h =
          (Inr (rows @
             [\<lparr>row_entry = dict_get e mf,
               row_action = (case ex of Some d \<Rightarrow> ''updated'' | None \<Rightarrow> ''created''),
               row_error = [], row_timestamp = clock w (length rows), row_dry_run = True\<rparr>]),
           h @ [\<lparr>meth = GET,
                url = DEST_API ev @ ''/api/'' @ c @ ''?filters['' @ mf @ ''][$eq]=''
                        @ py_str (container_repr w) (dict_get e mf),
                bearer = DEST_TOKEN ev, payload = None\<rparr>])"
    by (simp only: act lookup_request_def lookup_url_def)
next
  assume run: "migrate_collection ev w c mf True = Some (r, hh)"
  show "\<forall>q\<in>set hh. meth q = GET"
  proof (cases "fetch_entries ev w c mf")
    case None
    with run show ?thesis by (simp add: migrate_collection_def)
  next
    case (Some a)
    obtain x h0 where a: "a = (x, h0)" by (cases a)
    with Some have g: "\<forall>q\<in>set h0. meth q = GET" using fetch_entries_only_gets by blast
    show ?thesis
    proof (cases x)
      case (Inl err)
      with Some a run g show ?thesis by (auto simp: migrate_collection_def)
    next
      case (Inr es)
      with Some a run have "hh = snd (migrate_entries ev w c mf True es [] h0)"
        by (auto simp: migrate_collection_def split: prod.splits sum.splits)
      with migrate_entries_dry_run_only_gets [OF g] show ?thesis by simp
    qed
  qed
qed

text \<open>
  C10. With \<^verbatim>\<open>dry_run\<close> set the \<^verbatim>\<open>except\<close> branch is never taken: an entry that gets to
  the \<^verbatim>\<open>try\<close> block adds a row whose action is \<^verbatim>\<open>created\<close> or \<^verbatim>\<open>updated\<close> and whose error
  is empty, and so is every row of the report of a whole dry run.
\<close>

theorem dry_run_never_records_failure:
  "(migrate_entry ev w c mf True e rows h = (Inr rows', h')
    \<longrightarrow> (\<exists>r. rows' = rows @ [r]
              \<and> (row_action r = ''created'' \<or> row_action r = ''updated'') \<and> row_error r = []))
   \<and> (migrate_collection ev w c mf True = Some (Report_Written report, hh)
    \<longrightarrow> (\<forall>r\<in>set report.
            (row_action r = ''created'' \<or> row_action r = ''updated'') \<and> row_error r = []))"
proof (intro conjI impI)
  assume "migrate_entry ev w c mf True e rows h = (Inr rows', h')"
  then show "\<exists>r. rows' = rows @ [r]
              \<and> (row_action r = ''created'' \<or> row_action r = ''updated'') \<and> row_error r = []"
    by (rule migrate_entry_dry_run_row)
next
  assume "migrate_collection ev w c mf True = Some (Report_Written report, hh)"
  then obtain es h0 where "migrate_entries ev w c mf True es [] h0 = (Inr report, hh)"
    by (rule migrate_collection_cases)
  from migrate_entries_dry_run_rows [OF this]
  show "\<forall>r\<in>set report.
            (row_action r = ''created'' \<or> row_action r = ''updated'') \<and> row_error r = []"
    by simp
qed

subsection \<open>Entries without the payload fields\<close>

lemma sanitize_payload_missing:
  assumes "''agendaFormatName'' \<notin> fst ` set e \<or> ''agendaFormatOrder'' \<notin> fst ` set e"
  shows "sanitize_payload e =
           Inl (KeyError (JStr (if ''agendaFormatName'' \<notin> fst ` set e
                                then ''agendaFormatName'' else ''agendaFormatOrder'')))"
proof (cases "map_of e ''agendaFormatName''")
  case None
  then have "''agendaFormatName'' \<notin> fst ` set e" by (simp add: map_of_eq_None_iff)
  with None show ?thesis by (simp add: sanitize_payload_def)
next
  case (Some v)
  then have in_e: "''agendaFormatName'' \<in> fst ` set e"
    by (metis map_of_eq_None_iff option.distinct(1))
  with assms have "map_of e ''agendaFormatOrder'' = None" by (simp add: map_of_eq_None_iff)
  with Some in_e show ?thesis by (simp add: sanitize_payload_def)
qed

lemma migrate_entries_raises_at:
  assumes "e \<in> set es" and "\<exists>x. sanitize_payload e = Inl x"
  shows "\<exists>x h'. migrate_entries ev w c mf dr es rows h = (Inl x, h')"
proof -
  from assms(1) obtain xs ys where es: "es = xs @ e # ys" by (auto dest: split_list)
  from assms(2) obtain k where k: "sanitize_payload e = Inl k" by blast
  obtain y h1 where m: "migrate_entries ev w c mf dr xs rows h = (y, h1)"
    by (cases "migrate_entries ev w c mf dr xs rows h")
  show ?thesis
  proof (cases y)
    case (Inl x)
    with m es show ?thesis by (simp add: migrate_entries_append)
  next
    case (Inr rows1)
    with m es k show ?thesis
      by (simp add: migrate_entries_append migrate_entry_def Let_def)
  qed
qed

text \<open>
  C8. For an entry without \<^verbatim>\<open>agendaFormatName\<close> or without \<^verbatim>\<open>agendaFormatOrder\<close>,
  \<^verbatim>\<open>sanitize_payload\<close> raises \<^verbatim>\<open>KeyError\<close> for the first of the two that is missing; the
  loop body passes the exception on before any request or row, in a dry run as well; and a
  run that fetched such an entry ends with an exception and writes no report.
\<close>

theorem missing_payload_field_aborts_run:
  assumes "''agendaFormatName'' \<notin> fst ` set e \<or> ''agendaFormatOrder'' \<notin> fst ` set e"
  shows "sanitize_payload e =
           Inl (KeyError (JStr (if ''agendaFormatName'' \<notin> fst ` set e
                                then ''agendaFormatName'' else ''agendaFormatOrder'')))
       \<and> migrate_entry ev w c mf dr e rows h =
           (Inl (KeyError (JStr (if ''agendaFormatName'' \<notin> fst ` set e
                                 then ''agendaFormatName'' else ''agendaFormatOrder''))), h)
       \<and> (fetch_entries ev w c mf = Some (Inr es, h0) \<and> e \<in> set es
           \<longrightarrow> (\<exists>x h'. migrate_collection ev w c mf dr = Some (Raised x, h')))"
proof (intro conjI impI)
  show s: "sanitize_payload e =
           Inl (KeyError (JStr (if ''agendaFormatName'' \<notin> fst ` set e
                                then ''agendaFormatName'' else ''agendaFormatOrder'')))"
    using assms by (rule sanitize_payload_missing)
  then show "migrate_entry ev w c mf dr e rows h =
           (Inl (KeyError (JStr (if ''agendaFormatName'' \<notin> fst ` set e
                                 then ''agendaFormatName'' else ''agendaFormatOrder''))), h)"
    by (simp add: migrate_entry_def Let_def)
  assume f: "fetch_entries ev w c mf = Some (Inr es, h0) \<and> e \<in> set es"
  with s obtain x h' where "migrate_entries ev w c mf dr es [] h0 = (Inl x, h')"
    using migrate_entries_raises_at [of e es ev w c mf dr "[]" h0] by auto
  with f show "\<exists>x h'. migrate_collection ev w c mf dr = Some (Raised x, h')"
    by (simp add: migrate_collection_def)
qed

subsection \<open>Records without a match-field value\<close>

lemma fetch_record_with_id:
  assumes "''id'' \<in> fst ` set kvs"
  shows "fetch_record mf (JObj kvs) =
           (case attributes_of (JObj kvs) of
              None \<Rightarrow> Inr None
            | Some a \<Rightarrow>
                if truthy (dict_get a mf)
                then Inr (Some (dict_set a ''match_field'' (dict_get a mf)))
                else Inr None)"
proof (cases "attributes_of (JObj kvs)")
  case (Some a)
  then show ?thesis by (simp add: fetch_record_attributes_of)
next
  case None
  from assms obtain i where i: "map_of kvs ''id'' = Some i"
    by (cases "map_of kvs ''id''") (simp_all add: map_of_eq_None_iff)
  from assms have ne: "kvs \<noteq> []" by auto
  have skip: "skip_record (JObj kvs) = Inr None"
    by (simp add: skip_record_def)
  show ?thesis
  proof (cases "''attributes'' \<in> fst ` set kvs")
    case False
    with None i ne show ?thesis by (simp add: attributes_of_def)
  next
    case True
    let ?v = "dict_get kvs ''attributes''"
    from True have f: "fetch_record mf (JObj kvs) =
        (case ?v of
           JObj a \<Rightarrow>
             if a = [] then Inr None
             else (let attrs = dict_set a ''id'' i;
                       match_value = dict_get attrs mf;
                       attrs' = dict_set attrs ''match_field'' match_value
                   in if \<not> truthy match_value then Inr None else Inr (Some attrs'))
         | _ \<Rightarrow> Inr None)"
      by (simp add: fetch_record_def i skip dict_get_def Let_def split: json.splits)
    from True None i have "\<forall>a. ?v = JObj a \<longrightarrow> a = []"
      by (auto simp: attributes_of_def split: json.splits if_splits)
    with f None show ?thesis by (simp split: json.splits)
  qed
qed

text \<open>
  C6, as amended. For a raw record that is a dict with an \<^verbatim>\<open>id\<close>, the loop body never
  raises: the record is appended when its attributes are a non-empty dict whose
  match-field value (read once \<^verbatim>\<open>id\<close> is copied in) is true, and it is skipped otherwise,
  so whenever that value is empty, missing or null. No record at all is appended with a
  false match-field value, and no entry that \<^verbatim>\<open>fetch_entries\<close> returns has one.
\<close>

theorem falsy_match_field_is_skipped:
  "(''id'' \<in> fst ` set kvs
    \<longrightarrow> fetch_record mf (JObj kvs) =
          (case attributes_of (JObj kvs) of
             None \<Rightarrow> Inr None
           | Some a \<Rightarrow>
               if truthy (dict_get a mf)
               then Inr (Some (dict_set a ''match_field'' (dict_get a mf)))
               else Inr None))
   \<and> (fetch_record mf r = Inr (Some b) \<longrightarrow> truthy (dict_get b mf))
   \<and> (fetch_entries ev w c mf = Some (Inr es, h) \<longrightarrow> (\<forall>e\<in>set es. truthy (dict_get e mf)))"
proof (intro conjI impI)
  assume "''id'' \<in> fst ` set kvs"
  then show "fetch_record mf (JObj kvs) =
          (case attributes_of (JObj kvs) of
             None \<Rightarrow> Inr None
           | Some a \<Rightarrow>
               if truthy (dict_get a mf)
               then Inr (Some (dict_set a ''match_field'' (dict_get a mf)))
               else Inr None)"
    by (rule fetch_record_with_id)
next
  assume "fetch_record mf r = Inr (Some b)"
  then show "truthy (dict_get b mf)" by (rule fetch_record_truthy)
next
  assume "fetch_entries ev w c mf = Some (Inr es, h)"
  then obtain n where "run_pages n ev w c mf 1 [] [] = Some (Inr es, h)"
    unfolding fetch_entries_def using fetch_pages_run_pages by blast
  from run_pages_truthy [OF this] show "\<forall>e\<in>set es. truthy (dict_get e mf)" by simp
qed

subsection \<open>Error statuses\<close>

lemma pages_advance:
  "(\<forall>k<n. page_nonempty ev w c mf (Suc (q + k)))
     \<Longrightarrow> \<exists>acc'. fetch_pages ev w c mf (Suc q) acc (page_history ev c q)
              = fetch_pages ev w c mf (Suc (q + n)) acc' (page_history ev c (q + n))"
proof (induction n arbitrary: q acc)
  case 0
  show ?case by (rule exI [of _ acc]) simp
next
  case (Suc n)
  from Suc.prems have "page_nonempty ev w c mf (Suc (q + 0))" by blast
  then obtain d x where d: "page_data ev w c (Suc q) = Inr d" "truthy d"
    and x: "page_step mf d [] = Inr x"
    by (auto simp: page_nonempty_def split: sum.splits)
  from d x obtain es0 where "x = Continue es0"
    by (cases x) (simp_all add: page_step_Break)
  with x have "page_step mf d acc = Inr (Continue (acc @ es0))"
    by (simp add: page_step_acc [of mf d acc])
  with d have fp: "fetch_page ev w c mf (Suc q) acc (page_history ev c q)
               = (Inr (Continue (acc @ es0)), page_history ev c (Suc q))"
    by (simp add: fetch_page_at)
  have "\<forall>k<n. page_nonempty ev w c mf (Suc (Suc q + k))"
  proof (intro allI impI)
    fix k assume "k < n"
    then have "Suc k < Suc n" by simp
    with Suc.prems have "page_nonempty ev w c mf (Suc (q + Suc k))" by blast
    then show "page_nonempty ev w c mf (Suc (Suc q + k))" by simp
  qed
  from Suc.IH [OF this, of "acc @ es0"] obtain acc' where
    "fetch_pages ev w c mf (Suc (Suc q)) (acc @ es0) (page_history ev c (Suc q))
       = fetch_pages ev w c mf (Suc (Suc q + n)) acc' (page_history ev c (Suc q + n))"
    by blast
  with fp have "fetch_pages ev w c mf (Suc q) acc (page_history ev c q)
       = fetch_pages ev w c mf (Suc (q + Suc n)) acc' (page_history ev c (q + Suc n))"
    by (simp add: fetch_pages.simps [of ev w c mf "Suc q"])
  then show ?case ..
qed

lemma pages_raise:
  assumes "\<forall>k<n. page_nonempty ev w c mf (Suc k)" and "page_data ev w c (Suc n) = Inl x"
  shows "fetch_entries ev w c mf = Some (Inl x, page_history ev c (Suc n))"
proof -
  from assms(1) have "\<forall>k<n. page_nonempty ev w c mf (Suc (0 + k))" by simp
  from pages_advance [OF this, of "[]"] obtain acc' where
    "fetch_pages ev w c mf (Suc 0) [] (page_history ev c 0)
       = fetch_pages ev w c mf (Suc n) acc' (page_history ev c n)" by auto
  moreover from assms(2)
  have "fetch_pages ev w c mf (Suc n) acc' (page_history ev c n)
          = Some (Inl x, page_history ev c (Suc n))"
    by (simp add: fetch_pages.simps [of ev w c mf "Suc n"] fetch_page_at)
  ultimately show ?thesis by (simp add: fetch_entries_def page_history_def)
qed

text \<open>
  C2, as amended. A response with a status from 400 to 599 to a page request of the
  pagination, or to a destination lookup, makes the run end with the \<^verbatim>\<open>HTTPError\<close> of
  \<^verbatim>\<open>raise_for_status\<close>, right after that request, and no report is written.
\<close>

theorem error_status_on_get_aborts_run:
  "((\<forall>k<n. page_nonempty ev w c mf (Suc k))
      \<and> page_reply ev w c (Suc n) = Replies res \<and> error_status res
    \<longrightarrow> migrate_collection ev w c mf dr =
          Some (Raised (Requests (HTTPError (http_error_msg res))), page_history ev c (Suc n)))
   \<and> (fetch_entries ev w c mf = Some (Inr (before @ e # rest), h0)
      \<and> migrate_entries ev w c mf dr before [] h0 = (Inr rows, h1)
      \<and> sanitize_payload e = Inr pl
      \<and> respond w (h1 @ [lookup_request ev w c mf (dict_get e mf)]) = Replies res'
      \<and> error_status res'
    \<longrightarrow> migrate_collection ev w c mf dr =
          Some (Raised (Requests (HTTPError (http_error_msg res'))),
                h1 @ [lookup_request ev w c mf (dict_get e mf)]))"
proof (intro conjI impI)
  assume a: "(\<forall>k<n. page_nonempty ev w c mf (Suc k))
      \<and> page_reply ev w c (Suc n) = Replies res \<and> error_status res"
  then have "page_data ev w c (Suc n) = Inl (Requests (HTTPError (http_error_msg res)))"
    by (simp add: page_data_def response_data_error_status)
  with a have "fetch_entries ev w c mf
      = Some (Inl (Requests (HTTPError (http_error_msg res))), page_history ev c (Suc n))"
    by (simp add: pages_raise)
  then show "migrate_collection ev w c mf dr =
          Some (Raised (Requests (HTTPError (http_error_msg res))), page_history ev c (Suc n))"
    by (simp add: migrate_collection_def)
next
  let ?q = "lookup_request ev w c mf (dict_get e mf)"
  assume a: "fetch_entries ev w c mf = Some (Inr (before @ e # rest), h0)
      \<and> migrate_entries ev w c mf dr before [] h0 = (Inr rows, h1)
      \<and> sanitize_payload e = Inr pl
      \<and> respond w (h1 @ [?q]) = Replies res'
      \<and> error_status res'"
  then have "find_existing_entry ev w c mf (dict_get e mf) h1
      = (Inl (Requests (HTTPError (http_error_msg res'))), h1 @ [?q])"
    by (simp add: find_existing_entry_eq response_data_error_status)
  with a have "migrate_entry ev w c mf dr e rows h1
      = (Inl (Requests (HTTPError (http_error_msg res'))), h1 @ [?q])"
    by (simp add: migrate_entry_def Let_def)
  with a have "migrate_entries ev w c mf dr (before @ e # rest) [] h0
      = (Inl (Requests (HTTPError (http_error_msg res'))), h1 @ [?q])"
    by (simp add: migrate_entries_append)
  with a show "migrate_collection ev w c mf dr =
          Some (Raised (Requests (HTTPError (http_error_msg res'))), h1 @ [?q])"
    by (simp add: migrate_collection_def)
qed

subsection \<open>The upsert\<close>

text \<open>
  C1, as amended. When the create or update call of an entry gets a response with a status
  from 400 to 599, the entry's row is added with action \<^verbatim>\<open>failed\<close> and the message of the
  \<^verbatim>\<open>HTTPError\<close>, and the loop goes on with the entries that follow.
\<close>

theorem failed_upsert_is_recorded_and_run_continues:
  assumes "sanitize_payload e = Inr pl"
    and "find_existing_entry ev w c mf (dict_get e mf) h = (Inr ex, h1)"
    and "q = (if has_existing ex
              then update_request ev w c (doc_id_of ex) [(''data'', JObj pl)]
              else create_request ev c [(''data'', JObj pl)])"
    and "respond w (h1 @ [q]) = Replies res"
    and "error_status res"
  shows "migrate_entries ev w c mf False (e # rest) rows h =
           migrate_entries ev w c mf False rest
             (rows @ [\<lparr>row_entry = dict_get e mf, row_action = ''failed'',
                        row_error = http_error_msg res,
                        row_timestamp = clock w (length rows), row_dry_run = False\<rparr>])
             (h1 @ [q])"
proof -
  from assms(3-5)
  have "upsert ev w c False ex (doc_id_of ex) [(''data'', JObj pl)] h1
          = (Inl (HTTPError (http_error_msg res)), h1 @ [q])"
    by (simp add: upsert_live Let_def raise_for_status_def error_status_def)
  with migrate_entry_reached [OF assms(1,2), of False rows]
  have "migrate_entry ev w c mf False e rows h =
          (Inr (rows @ [\<lparr>row_entry = dict_get e mf, row_action = ''failed'',
                        row_error = http_error_msg res,
                        row_timestamp = clock w (length rows), row_dry_run = False\<rparr>]),
           h1 @ [q])"
    by simp
  then show ?thesis by simp
qed

text \<open>
  C3, as amended. When \<^verbatim>\<open>dry_run\<close> is false, an entry whose lookup returns a match sends,
  after the lookup, exactly one request, a PUT to \<^verbatim>\<open>{collection}/{documentId}\<close>, and no
  POST; an entry whose lookup returns no match sends exactly one POST to
  \<^verbatim>\<open>{collection}\<close>, and no PUT.
\<close>

theorem live_upsert_puts_match_posts_otherwise:
  assumes "sanitize_payload e = Inr pl"
    and "find_existing_entry ev w c mf (dict_get e mf) h = (Inr ex, h1)"
  shows "snd (migrate_entry ev w c mf False e rows h) =
           h1 @ [case ex of
                   Some d \<Rightarrow>
                     \<lparr>meth = PUT,
                      url = DEST_API ev @ ''/api/'' @ c @ ''/''
                              @ py_str (container_repr w) (dict_get d ''documentId''),
                      bearer = DEST_TOKEN ev, payload = Some (JObj [(''data'', JObj pl)])\<rparr>
                 | None \<Rightarrow>
                     \<lparr>meth = POST, url = DEST_API ev @ ''/api/'' @ c,
                      bearer = DEST_TOKEN ev, payload = Some (JObj [(''data'', JObj pl)])\<rparr>]"
proof (cases ex)
  case None
  with migrate_entry_reached [OF assms, of False rows] show ?thesis
    by (simp add: upsert_live Let_def create_request_def split: reply.splits sum.splits)
next
  case (Some d)
  with assms(2) obtain doc where "d = [(''documentId'', doc)]"
    using find_existing_entry_Some by blast
  with Some migrate_entry_reached [OF assms, of False rows] show ?thesis
    by (simp add: upsert_live Let_def update_request_def doc_id_of_def
        split: reply.splits sum.splits)
qed

text \<open>
  C9, as amended. When the first result of the lookup is a dict without
  \<^verbatim>\<open>attributes.documentId\<close> (no \<^verbatim>\<open>attributes\<close>, or attributes that are a dict without that
  key), \<^verbatim>\<open>find_existing_entry\<close> returns \<^verbatim>\<open>{"documentId": None}\<close>, which counts as a match;
  when \<^verbatim>\<open>dry_run\<close> is false the entry then sends a PUT to \<^verbatim>\<open>{collection}/None\<close> and no
  POST.
\<close>

theorem match_without_document_id_puts_to_None:
  assumes "respond w (h @ [lookup_request ev w c mf (dict_get e mf)]) = Replies res"
    and "response_data res = Inr (JList (JObj kvs # others))"
    and "lacks_document_id kvs"
    and "sanitize_payload e = Inr pl"
  shows "find_existing_entry ev w c mf (dict_get e mf) h =
           (Inr (Some [(''documentId'', JNull)]), h @ [lookup_request ev w c mf (dict_get e mf)])
       \<and> has_existing (Some [(''documentId'', JNull)])
       \<and> snd (migrate_entry ev w c mf False e rows h) =
           h @ [lookup_request ev w c mf (dict_get e mf),
                \<lparr>meth = PUT, url = DEST_API ev @ ''/api/'' @ c @ ''/None'',
                 bearer = DEST_TOKEN ev, payload = Some (JObj [(''data'', JObj pl)])\<rparr>]"
proof -
  from assms(3) have "existing_of_data (JList (JObj kvs # others)) = Inr (Some [(''documentId'', JNull)])"
    by (auto simp: existing_of_data_def lacks_document_id_def split: option.splits json.splits)
  with assms(1,2)
  have f: "find_existing_entry ev w c mf (dict_get e mf) h =
           (Inr (Some [(''documentId'', JNull)]), h @ [lookup_request ev w c mf (dict_get e mf)])"
    by (simp add: find_existing_entry_eq)
  from migrate_entry_reached [OF assms(4) f, of False rows]
  have "snd (migrate_entry ev w c mf False e rows h) =
           h @ [lookup_request ev w c mf (dict_get e mf),
                \<lparr>meth = PUT, url = DEST_API ev @ ''/api/'' @ c @ ''/None'',
                 bearer = DEST_TOKEN ev, payload = Some (JObj [(''data'', JObj pl)])\<rparr>]"
    by (simp add: upsert_live Let_def update_request_def doc_id_of_def dict_get_def
        split: reply.splits sum.splits)
  with f show ?thesis by simp
qed

subsection \<open>The concrete runs, evaluated\<close>

lemma sanitize_fetched_A: "sanitize_payload fetched_A = Inr payload_A"
  by code_simp

lemma fetch_create_fails:
  "fetch_entries demo_env world_create_fails ''agenda'' ''match''
     = Some (Inr [fetched_A, fetched_B], page_history demo_env ''agenda'' 2)"
  by code_simp

lemma fetch_lookup_fails:
  "fetch_entries demo_env world_lookup_fails ''agenda'' ''match''
     = Some (Inr [fetched_A, fetched_B], page_history demo_env ''agenda'' 2)"
  by code_simp

lemma fetch_missing_field:
  "fetch_entries demo_env world_missing_field ''agenda'' ''match''
     = Some (Inr [fetched_C], page_history demo_env ''agenda'' 2)"
  by code_simp

lemma fetch_blank:
  "fetch_entries demo_env world_blank ''agenda'' ''match''
     = Some (Inr [fetched_A], page_history demo_env ''agenda'' 2)"
  by code_simp

lemma run_create_fails:
  "migrate_collection demo_env world_create_fails ''agenda'' ''match'' False =
     Some (Report_Written
             [\<lparr>row_entry = JStr ''A'', row_action = ''failed'',
               row_error = ''500 Server Error: Internal Server Error for url: u'',
               row_timestamp = ''T0'', row_dry_run = False\<rparr>,
              \<lparr>row_entry = JStr ''B'', row_action = ''created'', row_error = [],
               row_timestamp = ''T1'', row_dry_run = False\<rparr>],
           page_history demo_env ''agenda'' 2 @
             [lookup_request demo_env world_create_fails ''agenda'' ''match'' (JStr ''A''),
              create_request demo_env ''agenda'' [(''data'', JObj payload_A)],
              lookup_request demo_env world_create_fails ''agenda'' ''match'' (JStr ''B''),
              create_request demo_env ''agenda''
                [(''data'', JObj [(''agendaFormatName'', JStr ''Panel''),
                                  (''agendaFormatOrder'', JInt 2)])]])"
  by code_simp

lemma lookup_no_match:
  "find_existing_entry demo_env world_no_match ''agenda'' ''match'' (dict_get fetched_A ''match'')
       (page_history demo_env ''agenda'' 2)
     = (Inr None, page_history demo_env ''agenda'' 2
          @ [lookup_request demo_env world_no_match ''agenda'' ''match'' (JStr ''A'')])"
  by code_simp

lemma lookup_match:
  "find_existing_entry demo_env world_match ''agenda'' ''match'' (dict_get fetched_A ''match'')
       (page_history demo_env ''agenda'' 2)
     = (Inr (Some [(''documentId'', JStr ''doc123'')]), page_history demo_env ''agenda'' 2
          @ [lookup_request demo_env world_match ''agenda'' ''match'' (JStr ''A'')])"
  by code_simp

lemma lookup_create_fails:
  "find_existing_entry demo_env world_create_fails ''agenda'' ''match''
       (dict_get fetched_A ''match'') (page_history demo_env ''agenda'' 2)
     = (Inr None, page_history demo_env ''agenda'' 2
          @ [lookup_request demo_env world_create_fails ''agenda'' ''match'' (JStr ''A'')])"
  by code_simp

lemma run_no_match_dry:
  "migrate_collection demo_env world_no_match ''agenda'' ''match'' True =
     Some (Report_Written
             [\<lparr>row_entry = JStr ''A'', row_action = ''created'', row_error = [],
               row_timestamp = ''T0'', row_dry_run = True\<rparr>],
           page_history demo_env ''agenda'' 2
             @ [lookup_request demo_env world_no_match ''agenda'' ''match'' (JStr ''A'')])"
  by code_simp

subsection \<open>The theorems at the concrete runs\<close>

theorem one_report_row_per_fetched_entry_witness:
  "\<exists>es h0. fetch_entries demo_env world_create_fails ''agenda'' ''match'' = Some (Inr es, h0)
       \<and> length es = 2
       \<and> map (\<lambda>e. dict_get e ''match'') es = [JStr ''A'', JStr ''B'']"
  using one_report_row_per_fetched_entry [OF run_create_fails] by auto

lemma run_match_dry:
  "migrate_collection demo_env world_match ''agenda'' ''match'' True =
     Some (Report_Written
             [\<lparr>row_entry = JStr ''A'', row_action = ''updated'', row_error = [],
               row_timestamp = ''T0'', row_dry_run = True\<rparr>],
           page_history demo_env ''agenda'' 2
             @ [lookup_request demo_env world_match ''agenda'' ''match'' (JStr ''A'')])"
  by code_simp

theorem dry_run_records_action_without_writing_witness:
  "migrate_entry demo_env world_match ''agenda'' ''match'' True fetched_A []
       (page_history demo_env ''agenda'' 2) =
     (Inr [\<lparr>row_entry = JStr ''A'', row_action = ''updated'', row_error = [],
            row_timestamp = ''T0'', row_dry_run = True\<rparr>],
      page_history demo_env ''agenda'' 2
        @ [\<lparr>meth = GET, url = ''http://dst/api/agenda?filters[match][$eq]=A'', bearer = ''d'', payload = None\<rparr>])
   \<and> migrate_entry demo_env world_no_match ''agenda'' ''match'' True fetched_A []
       (page_history demo_env ''agenda'' 2) =
     (Inr [\<lparr>row_entry = JStr ''A'', row_action = ''created'', row_error = [],
            row_timestamp = ''T0'', row_dry_run = True\<rparr>],
      page_history demo_env ''agenda'' 2
        @ [\<lparr>meth = GET, url = ''http://dst/api/agenda?filters[match][$eq]=A'', bearer = ''d'', payload = None\<rparr>])
   \<and> map meth (page_history demo_env ''agenda'' 2
                 @ [lookup_request demo_env world_match ''agenda'' ''match'' (JStr ''A'')])
       = [GET, GET, GET]"
proof -
  have v: "dict_get fetched_A ''match'' = JStr ''A''" by code_simp
  have t: "clock world_match 0 = ''T0''" "clock world_no_match 0 = ''T0''" by code_simp+
  have u: "DEST_API demo_env @ ''/api/'' @ ''agenda'' @ ''?filters['' @ ''match'' @ ''][$eq]=''
             @ py_str (container_repr world_match) (JStr ''A'')
           = ''http://dst/api/agenda?filters[match][$eq]=A''"
    "DEST_API demo_env @ ''/api/'' @ ''agenda'' @ ''?filters['' @ ''match'' @ ''][$eq]=''
             @ py_str (container_repr world_no_match) (JStr ''A'')
           = ''http://dst/api/agenda?filters[match][$eq]=A''"
    "DEST_TOKEN demo_env = ''d''"
    by code_simp+
  have g: "list_all (\<lambda>q. meth q = GET)
             (page_history demo_env ''agenda'' 2
                @ [lookup_request demo_env world_match ''agenda'' ''match'' (JStr ''A'')])"
    using dry_run_records_action_without_writing
      [THEN conjunct2, THEN mp, OF run_match_dry]
    by (simp only: list_all_iff)
  from dry_run_records_action_without_writing
         [THEN conjunct1, THEN mp, OF conjI, OF sanitize_fetched_A lookup_match, of "[]"]
       dry_run_records_action_without_writing
         [THEN conjunct1, THEN mp, OF conjI, OF sanitize_fetched_A lookup_no_match, of "[]"]
       g
  show ?thesis
    by (simp add: v t u page_history_def numeral_2_eq_2 demo_env_def)
qed

theorem dry_run_never_records_failure_witness:
  "migrate_collection demo_env world_no_match ''agenda'' ''match'' True =
     Some (Report_Written
             [\<lparr>row_entry = JStr ''A'', row_action = ''created'', row_error = [],
               row_timestamp = ''T0'', row_dry_run = True\<rparr>],
           page_history demo_env ''agenda'' 2
             @ [lookup_request demo_env world_no_match ''agenda'' ''match'' (JStr ''A'')])
   \<and> list_all (\<lambda>r. (row_action r = ''created'' \<or> row_action r = ''updated'') \<and> row_error r = [])
       [\<lparr>row_entry = JStr ''A'', row_action = ''created'', row_error = [],
         row_timestamp = ''T0'', row_dry_run = True\<rparr>]"
  using dry_run_never_records_failure
    [of demo_env world_no_match "''agenda''" "''match''" fetched_A "[]"
        "page_history demo_env ''agenda'' 2" "[]" "[]"
        "[\<lparr>row_entry = JStr ''A'', row_action = ''created'', row_error = [],
               row_timestamp = ''T0'', row_dry_run = True\<rparr>]"
        "page_history demo_env ''agenda'' 2
           @ [lookup_request demo_env world_no_match ''agenda'' ''match'' (JStr ''A'')]"]
    run_no_match_dry
  by (simp only: list_all_iff) blast

theorem missing_payload_field_aborts_run_witness:
  "sanitize_payload fetched_C = Inl (KeyError (JStr ''agendaFormatOrder''))
   \<and> (\<exists>x h'. migrate_collection demo_env world_missing_field ''agenda'' ''match'' True
               = Some (Raised x, h'))"
proof -
  have lacks: "''agendaFormatName'' \<notin> fst ` set fetched_C \<or> ''agendaFormatOrder'' \<notin> fst ` set fetched_C"
    by (simp add: fetched_C_def)
  have name: "''agendaFormatName'' \<in> fst ` set fetched_C"
    by (simp add: fetched_C_def)
  from missing_payload_field_aborts_run
    [OF lacks, of demo_env world_missing_field "''agenda''" "''match''" True "[]" "[]"
       "[fetched_C]" "page_history demo_env ''agenda'' 2"]
    fetch_missing_field name
  show ?thesis by simp
qed

theorem falsy_match_field_is_skipped_witness:
  "fetch_record ''match'' entry_blank = Inr None
   \<and> fetch_record ''match'' entry_null_attributes = Inr None
   \<and> fetch_record ''match'' entry_A = Inr (Some fetched_A)
   \<and> truthy (dict_get fetched_A ''match'')
   \<and> list_all (\<lambda>e. truthy (dict_get e ''match'')) [fetched_A]"
proof -
  note t = falsy_match_field_is_skipped [THEN conjunct1, THEN mp]
  have 1: "fetch_record ''match'' entry_blank = Inr None"
    unfolding entry_blank_def by (rule t [THEN trans]) code_simp+
  have 2: "fetch_record ''match'' entry_null_attributes = Inr None"
    unfolding entry_null_attributes_def by (rule t [THEN trans]) code_simp+
  have 3: "fetch_record ''match'' entry_A = Inr (Some fetched_A)"
    unfolding entry_A_def by (rule t [THEN trans]) code_simp+
  have 4: "truthy (dict_get fetched_A ''match'')"
    by (rule falsy_match_field_is_skipped [THEN conjunct2, THEN conjunct1, THEN mp, OF 3])
  have 5: "list_all (\<lambda>e. truthy (dict_get e ''match'')) [fetched_A]"
    using falsy_match_field_is_skipped
      [THEN conjunct2, THEN conjunct2, THEN mp, OF fetch_blank]
    by (simp only: list_all_iff)
  from 1 2 3 4 5 show ?thesis by (intro conjI)
qed

theorem failed_upsert_is_recorded_and_run_continues_witness:
  "migrate_entries demo_env world_create_fails ''agenda'' ''match'' False
       [fetched_A, fetched_B] [] (page_history demo_env ''agenda'' 2) =
     migrate_entries demo_env world_create_fails ''agenda'' ''match'' False [fetched_B]
       [\<lparr>row_entry = dict_get fetched_A ''match'', row_action = ''failed'',
         row_error = ''500 Server Error: Internal Server Error for url: u'',
         row_timestamp = clock world_create_fails 0, row_dry_run = False\<rparr>]
       (page_history demo_env ''agenda'' 2
          @ [lookup_request demo_env world_create_fails ''agenda'' ''match'' (JStr ''A''),
             create_request demo_env ''agenda'' [(''data'', JObj payload_A)]])"
proof -
  let ?res = "\<lparr>status_code = 500, reason = ''Internal Server Error'', resp_url = ''u'',
               body = Some (JObj [])\<rparr>"
  let ?q = "create_request demo_env ''agenda'' [(''data'', JObj payload_A)]"
  let ?h1 = "page_history demo_env ''agenda'' 2
          @ [lookup_request demo_env world_create_fails ''agenda'' ''match'' (JStr ''A'')]"
  have q: "?q = (if has_existing None
              then update_request demo_env world_create_fails ''agenda'' (doc_id_of None)
                     [(''data'', JObj payload_A)]
              else create_request demo_env ''agenda'' [(''data'', JObj payload_A)])"
    by simp
  have r: "respond world_create_fails (?h1 @ [?q]) = Replies ?res"
    by (simp add: world_create_fails_def scripted_def answer_def page_history_def)
  have s: "error_status ?res" by (simp add: error_status_def)
  have m: "http_error_msg ?res = ''500 Server Error: Internal Server Error for url: u''"
    by code_simp
  from failed_upsert_is_recorded_and_run_continues
    [OF sanitize_fetched_A lookup_create_fails q r s, of "[fetched_B]" "[]"] m
  show ?thesis by simp
qed

lemma fetch_page_fails_first:
  "page_nonempty demo_env world_page_fails ''agenda'' ''match'' (Suc 0)"
  by code_simp

lemma reply_page_fails:
  "page_reply demo_env world_page_fails ''agenda'' (Suc (Suc 0)) =
     Replies \<lparr>status_code = 503, reason = ''Service Unavailable'', resp_url = ''u'',
              body = Some (JObj [])\<rparr>"
  by code_simp

lemma reply_lookup_fails:
  "respond world_lookup_fails
     (page_history demo_env ''agenda'' 2
        @ [lookup_request demo_env world_lookup_fails ''agenda'' ''match''
             (dict_get fetched_A ''match'')]) =
     Replies \<lparr>status_code = 500, reason = ''Internal Server Error'', resp_url = ''u'',
              body = Some (JObj [])\<rparr>"
  by code_simp

theorem error_status_on_get_aborts_run_witness:
  "migrate_collection demo_env world_page_fails ''agenda'' ''match'' False =
     Some (Raised (Requests (HTTPError ''503 Server Error: Service Unavailable for url: u'')),
           page_history demo_env ''agenda'' (Suc (Suc 0)))
   \<and> migrate_collection demo_env world_lookup_fails ''agenda'' ''match'' False =
     Some (Raised (Requests (HTTPError ''500 Server Error: Internal Server Error for url: u'')),
           page_history demo_env ''agenda'' 2
             @ [lookup_request demo_env world_lookup_fails ''agenda'' ''match''
                  (dict_get fetched_A ''match'')])"
proof -
  let ?r1 = "\<lparr>status_code = 503, reason = ''Service Unavailable'', resp_url = ''u'',
              body = Some (JObj [])\<rparr>"
  let ?r2 = "\<lparr>status_code = 500, reason = ''Internal Server Error'', resp_url = ''u'',
              body = Some (JObj [])\<rparr>"
  have p: "\<forall>k<Suc 0. page_nonempty demo_env world_page_fails ''agenda'' ''match'' (Suc k)"
    using fetch_page_fails_first by simp
  have e1: "error_status ?r1" and e2: "error_status ?r2"
    by (simp_all add: error_status_def)
  have m1: "http_error_msg ?r1 = ''503 Server Error: Service Unavailable for url: u''"
    by code_simp
  have m2: "http_error_msg ?r2 = ''500 Server Error: Internal Server Error for url: u''"
    by code_simp
  have f: "fetch_entries demo_env world_lookup_fails ''agenda'' ''match''
             = Some (Inr ([] @ fetched_A # [fetched_B]), page_history demo_env ''agenda'' 2)"
    using fetch_lookup_fails by simp
  have b: "migrate_entries demo_env world_lookup_fails ''agenda'' ''match'' False [] []
             (page_history demo_env ''agenda'' 2) = (Inr [], page_history demo_env ''agenda'' 2)"
    by simp
  have "migrate_collection demo_env world_page_fails ''agenda'' ''match'' False =
     Some (Raised (Requests (HTTPError (http_error_msg ?r1))),
           page_history demo_env ''agenda'' (Suc (Suc 0)))"
    using error_status_on_get_aborts_run
      [of "Suc 0" demo_env world_page_fails "''agenda''" "''match''" ?r1 False]
      p reply_page_fails e1 by blast
  moreover
  have "migrate_collection demo_env world_lookup_fails ''agenda'' ''match'' False =
     Some (Raised (Requests (HTTPError (http_error_msg ?r2))),
           page_history demo_env ''agenda'' 2
             @ [lookup_request demo_env world_lookup_fails ''agenda'' ''match''
                  (dict_get fetched_A ''match'')])"
    using error_status_on_get_aborts_run
      [of _ demo_env world_lookup_fails "''agenda''" "''match''" _ False
        "[]" fetched_A "[fetched_B]" "page_history demo_env ''agenda'' 2" "[]"
        "page_history demo_env ''agenda'' 2" payload_A ?r2]
      f b sanitize_fetched_A reply_lookup_fails e2 by blast
  ultimately show ?thesis by (simp only: m1 m2)
qed

theorem live_upsert_puts_match_posts_otherwise_witness:
  "snd (migrate_entry demo_env world_match ''agenda'' ''match'' False fetched_A []
          (page_history demo_env ''agenda'' 2)) =
     page_history demo_env ''agenda'' 2
       @ [lookup_request demo_env world_match ''agenda'' ''match'' (JStr ''A''),
          \<lparr>meth = PUT, url = ''http://dst/api/agenda/doc123'', bearer = ''d'',
           payload = Some (JObj [(''data'', JObj payload_A)])\<rparr>]
   \<and> snd (migrate_entry demo_env world_no_match ''agenda'' ''match'' False fetched_A []
          (page_history demo_env ''agenda'' 2)) =
     page_history demo_env ''agenda'' 2
       @ [lookup_request demo_env world_no_match ''agenda'' ''match'' (JStr ''A''),
          \<lparr>meth = POST, url = ''http://dst/api/agenda'', bearer = ''d'',
           payload = Some (JObj [(''data'', JObj payload_A)])\<rparr>]"
  using live_upsert_puts_match_posts_otherwise [OF sanitize_fetched_A lookup_match, of "[]"]
    live_upsert_puts_match_posts_otherwise [OF sanitize_fetched_A lookup_no_match, of "[]"]
  by (simp add: demo_env_def world_match_def scripted_def dict_get_def)

theorem match_without_document_id_puts_to_None_witness:
  "find_existing_entry demo_env world_flat_match ''agenda'' ''match''
       (dict_get fetched_A ''match'') (page_history demo_env ''agenda'' 2) =
     (Inr (Some [(''documentId'', JNull)]),
      page_history demo_env ''agenda'' 2
        @ [lookup_request demo_env world_flat_match ''agenda'' ''match''
             (dict_get fetched_A ''match'')])
   \<and> snd (migrate_entry demo_env world_flat_match ''agenda'' ''match'' False fetched_A []
          (page_history demo_env ''agenda'' 2)) =
     page_history demo_env ''agenda'' 2
       @ [lookup_request demo_env world_flat_match ''agenda'' ''match''
            (dict_get fetched_A ''match''),
          \<lparr>meth = PUT, url = ''http://dst/api/agenda/None'', bearer = ''d'',
           payload = Some (JObj [(''data'', JObj payload_A)])\<rparr>]"
proof -
  let ?res = "\<lparr>status_code = 200, reason = ''OK'', resp_url = ''u'',
               body = Some (JObj [(''data'', JList [JObj flat_match])])\<rparr>"
  have r: "respond world_flat_match
             (page_history demo_env ''agenda'' 2
                @ [lookup_request demo_env world_flat_match ''agenda'' ''match''
                     (dict_get fetched_A ''match'')]) = Replies ?res"
    by code_simp
  have d: "response_data ?res = Inr (JList (JObj flat_match # []))"
    by code_simp
  have l: "lacks_document_id flat_match"
    by code_simp
  from match_without_document_id_puts_to_None [OF r d l sanitize_fetched_A, of "[]"]
  show ?thesis by (simp add: demo_env_def)
qed

subsection \<open>Where the claims as first stated fail\<close>

text \<open>
  C1 as stated: a 500 from the destination lookup gives a \<^verbatim>\<open>failed\<close> row and the next
  entry is processed. The lookup is outside the \<^verbatim>\<open>try\<close>: with two entries fetched and a
  500 for the first lookup, the run raises after three requests, writes no row and never
  gets to the second entry.
\<close>

theorem lookup_failure_is_not_recorded_counterexample:
  "migrate_collection demo_env world_lookup_fails ''agenda'' ''match'' False =
     Some (Raised (Requests (HTTPError ''500 Server Error: Internal Server Error for url: u'')),
           [\<lparr>meth = GET,
             url = ''http://src/api/agenda?pagination[pageSize]=100&pagination[page]=1&filters[publishedAt][$notNull]=true&populate=*'',
             bearer = ''s'', payload = None\<rparr>,
            \<lparr>meth = GET,
             url = ''http://src/api/agenda?pagination[pageSize]=100&pagination[page]=2&filters[publishedAt][$notNull]=true&populate=*'',
             bearer = ''s'', payload = None\<rparr>,
            \<lparr>meth = GET, url = ''http://dst/api/agenda?filters[match][$eq]=A'',
             bearer = ''d'', payload = None\<rparr>])"
  by code_simp

text \<open>
  C2 as stated: every response that is not 2xx raises. A 300 is not 2xx, and
  \<^verbatim>\<open>raise_for_status\<close> lets it through: the run reads its empty \<^verbatim>\<open>data\<close>, ends normally
  and writes an (empty) report.
\<close>

theorem status_300_writes_report_counterexample:
  "migrate_collection demo_env world_redirect ''agenda'' ''match'' False =
     Some (Report_Written [],
           [\<lparr>meth = GET,
             url = ''http://src/api/agenda?pagination[pageSize]=100&pagination[page]=1&filters[publishedAt][$notNull]=true&populate=*'',
             bearer = ''s'', payload = None\<rparr>])"
  by code_simp

text \<open>
  C3 as stated: an entry with a match always issues one PUT. In a dry run it issues none:
  the three requests of this run are the two pages and the lookup.
\<close>

theorem dry_run_match_issues_no_put_counterexample:
  "migrate_collection demo_env world_match ''agenda'' ''match'' True =
     Some (Report_Written
             [\<lparr>row_entry = JStr ''A'', row_action = ''updated'', row_error = [],
               row_timestamp = ''T0'', row_dry_run = True\<rparr>],
           [\<lparr>meth = GET,
             url = ''http://src/api/agenda?pagination[pageSize]=100&pagination[page]=1&filters[publishedAt][$notNull]=true&populate=*'',
             bearer = ''s'', payload = None\<rparr>,
            \<lparr>meth = GET,
             url = ''http://src/api/agenda?pagination[pageSize]=100&pagination[page]=2&filters[publishedAt][$notNull]=true&populate=*'',
             bearer = ''s'', payload = None\<rparr>,
            \<lparr>meth = GET, url = ''http://dst/api/agenda?filters[match][$eq]=A'',
             bearer = ''d'', payload = None\<rparr>])"
  by code_simp

text \<open>
  C9 as stated: a first result without \<^verbatim>\<open>attributes.documentId\<close> makes the executor issue
  a PUT to \<^verbatim>\<open>{collection}/None\<close>. In a dry run the update branch is taken and the row says
  \<^verbatim>\<open>updated\<close>, but no PUT is issued.
\<close>

theorem dry_run_flat_match_issues_no_put_counterexample:
  "migrate_collection demo_env world_flat_match ''agenda'' ''match'' True =
     Some (Report_Written
             [\<lparr>row_entry = JStr ''A'', row_action = ''updated'', row_error = [],
               row_timestamp = ''T0'', row_dry_run = True\<rparr>],
           [\<lparr>meth = GET,
             url = ''http://src/api/agenda?pagination[pageSize]=100&pagination[page]=1&filters[publishedAt][$notNull]=true&populate=*'',
             bearer = ''s'', payload = None\<rparr>,
            \<lparr>meth = GET,
             url = ''http://src/api/agenda?pagination[pageSize]=100&pagination[page]=2&filters[publishedAt][$notNull]=true&populate=*'',
             bearer = ''s'', payload = None\<rparr>,
            \<lparr>meth = GET, url = ''http://dst/api/agenda?filters[match][$eq]=A'',
             bearer = ''d'', payload = None\<rparr>])"
  by code_simp

text \<open>
  C5 as stated: every entry processed in a dry run still gets a row. The payload is built
  and the lookup made before the \<^verbatim>\<open>try\<close>: a dry run whose only entry lacks
  \<^verbatim>\<open>agendaFormatOrder\<close> raises after the two page requests and writes no row.
\<close>

theorem dry_run_aborted_entry_gets_no_row_counterexample:
  "migrate_collection demo_env world_missing_field ''agenda'' ''match'' True =
     Some (Raised (KeyError (JStr ''agendaFormatOrder'')),
           [\<lparr>meth = GET,
             url = ''http://src/api/agenda?pagination[pageSize]=100&pagination[page]=1&filters[publishedAt][$notNull]=true&populate=*'',
             bearer = ''s'', payload = None\<rparr>,
            \<lparr>meth = GET,
             url = ''http://src/api/agenda?pagination[pageSize]=100&pagination[page]=2&filters[publishedAt][$notNull]=true&populate=*'',
             bearer = ''s'', payload = None\<rparr>])"
  by code_simp

text \<open>
  C6 as stated: every raw record with an empty match field is skipped without an error. The
  loop body reads \<^verbatim>\<open>entry["id"]\<close> before the match field: a record with an empty match
  field and no \<^verbatim>\<open>id\<close> raises \<^verbatim>\<open>KeyError\<close>, and so does the fetch.
\<close>

theorem record_without_id_raises_counterexample:
  "fetch_record ''match'' entry_no_id = Inl (KeyError (JStr ''id''))
   \<and> fetch_entries demo_env world_no_id ''agenda'' ''match'' =
       Some (Inl (KeyError (JStr ''id'')),
             [\<lparr>meth = GET,
               url = ''http://src/api/agenda?pagination[pageSize]=100&pagination[page]=1&filters[publishedAt][$notNull]=true&populate=*'',
               bearer = ''s'', payload = None\<rparr>])"
  by code_simp

end
